theory Spec2Isabelle
  imports Main
begin

section \<open>The intermediate representation\<close>

text \<open>
  Modelled from the spec: \<open>GenericInstr\<close> (module \<open>netqasm.lang.ir\<close>) is not among the
  sources; the constructors are the closed opcode set of section 3 of the specification.
\<close>

datatype GenericInstr =
    QALLOC | QFREE | INIT | MEAS
  | X | Y | Z | H | S | T | K
  | ROT_X | ROT_Y | ROT_Z | CNOT | CPHASE
  | SET | ADD | STORE | LOAD | ARRAY
  | CREATE_EPR | RECV_EPR | WAIT_ALL
  | BEQ | BNE | BEZ | BNZ | JMP
  | RET_REG | RET_ARR

text \<open>
  Modelled from the spec: the operand values and the two kinds of items of a pre-subroutine
  (\<open>ICmd\<close> and \<open>BranchLabel\<close> of \<open>netqasm.lang.ir\<close>) are not among the sources. Section 3:
  an operand is an immediate integer, a register identifier typed by role, an array handle,
  an (array, index-operand) pair or a branch-label reference; an \<open>ICmd\<close> is a pair of an
  opcode and its operands; a \<open>BranchLabel\<close> is a named point.
\<close>

datatype reg_role = RoleQ | RoleR | RoleC

datatype operand =
    Imm int
  | Reg reg_role int
  | ArrayHandle nat
  | ArrayEntry nat operand
  | LabelRef string

datatype command =
    ICmd (instruction: GenericInstr) (operands: "operand list")
  | BranchLabel (label_name: string)

text \<open>
  Modelled from the spec: \<open>PreSubroutine\<close> (\<open>netqasm.lang.ir\<close>) is not among the sources;
  the inspector reads its field \<open>commands\<close> only.
\<close>

record PreSubroutine =
  commands :: "command list"

section \<open>The pattern matcher of the builder tests\<close>

datatype PatternWildcard = ANY_ONE | ANY_ZERO_OR_MORE | BRANCH_LABEL

text \<open>A pattern element is \<open>Union[GenericInstr, PatternWildcard]\<close>.\<close>

datatype pattern_elem = Instr GenericInstr | Wild PatternWildcard

datatype error = AssertionError | IndexError | QubitNotActiveError

text \<open>Python list indexing with a non-negative index: out of range raises \<open>IndexError\<close>.\<close>

definition py_index :: "'a list \<Rightarrow> nat \<Rightarrow> error + 'a" where
  "py_index xs i = (if i < length xs then Inr (xs ! i) else Inl IndexError)"

text \<open>The fields set by \<open>PatternMatcher.__init__\<close>.\<close>

record PatternMatcher =
  pm_commands :: "command list"
  pm_pattern :: "pattern_elem list"
  pat_len :: nat
  pat_idx :: nat
  cmd_idx :: nat
  match_start :: "nat option"

definition PatternMatcher_init :: "command list \<Rightarrow> pattern_elem list \<Rightarrow> PatternMatcher" where
  "PatternMatcher_init cmds pat =
     \<lparr> pm_commands = cmds, pm_pattern = pat, pat_len = length pat,
       pat_idx = 0, cmd_idx = 0, match_start = None \<rparr>"

definition record_match :: "PatternMatcher \<Rightarrow> PatternMatcher" where
  "record_match m =
     (let m1 = (if match_start m = None then m\<lparr>match_start := Some (cmd_idx m)\<rparr> else m)
      in m1\<lparr>pat_idx := pat_idx m1 + 1\<rparr>)"

definition reset_match :: "PatternMatcher \<Rightarrow> PatternMatcher" where
  "reset_match m = m\<lparr>match_start := None, pat_idx := 0\<rparr>"

definition match_any_one :: "PatternMatcher \<Rightarrow> error + PatternMatcher" where
  "match_any_one m = Inr (record_match m)"

definition match_branch_label :: "PatternMatcher \<Rightarrow> error + PatternMatcher" where
  "match_branch_label m =
     (case py_index (pm_commands m) (cmd_idx m) of
        Inl e \<Rightarrow> Inl e
      | Inr cmd \<Rightarrow>
          (case cmd of
             BranchLabel _ \<Rightarrow> Inr (record_match m)
           | ICmd _ _ \<Rightarrow> Inr (reset_match m)))"

definition match_instr :: "PatternMatcher \<Rightarrow> error + PatternMatcher" where
  "match_instr m =
     (case py_index (pm_pattern m) (pat_idx m) of
        Inl e \<Rightarrow> Inl e
      | Inr pat \<Rightarrow>
          (case pat of
             Wild _ \<Rightarrow> Inl AssertionError
           | Instr p \<Rightarrow>
               (case py_index (pm_commands m) (cmd_idx m) of
                  Inl e \<Rightarrow> Inl e
                | Inr cmd \<Rightarrow>
                    (case cmd of
                       ICmd i _ \<Rightarrow>
                         (if i = p then Inr (record_match m) else Inr (reset_match m))
                     | BranchLabel _ \<Rightarrow> Inr (reset_match m)))))"

definition match_any_zero_or_more :: "PatternMatcher \<Rightarrow> error + PatternMatcher" where
  "match_any_zero_or_more m =
     (if \<not> pat_idx m > 0 then Inl AssertionError
      else if \<not> pat_idx m + 1 < pat_len m then Inl AssertionError
      else
        (case py_index (pm_pattern m) (pat_idx m + 1) of
           Inl e \<Rightarrow> Inl e
         | Inr next_pat \<Rightarrow>
             (case next_pat of
                Wild ANY_ONE \<Rightarrow> Inl AssertionError
              | Wild ANY_ZERO_OR_MORE \<Rightarrow> Inl AssertionError
              | Wild BRANCH_LABEL \<Rightarrow>
                  (case py_index (pm_commands m) (cmd_idx m) of
                     Inl e \<Rightarrow> Inl e
                   | Inr cmd \<Rightarrow>
                       (case cmd of
                          BranchLabel _ \<Rightarrow> Inr (m\<lparr>pat_idx := pat_idx m + 2\<rparr>)
                        | ICmd _ _ \<Rightarrow> Inr m))
              | Instr p \<Rightarrow>
                  (case py_index (pm_commands m) (cmd_idx m) of
                     Inl e \<Rightarrow> Inl e
                   | Inr cmd \<Rightarrow>
                       (case cmd of
                          ICmd i _ \<Rightarrow>
                            (if i = p then Inr (m\<lparr>pat_idx := pat_idx m + 2\<rparr>) else Inr m)
                        | BranchLabel _ \<Rightarrow> Inr m)))))"

text \<open>
  One iteration of the \<open>while True\<close> loop of \<open>PatternMatcher.match\<close>: it returns a
  boolean, raises, or goes on with the updated matcher.
\<close>

datatype step = Return bool | Continue PatternMatcher

definition match_dispatch :: "PatternMatcher \<Rightarrow> pattern_elem \<Rightarrow> error + PatternMatcher" where
  "match_dispatch m curr_pat =
     (case curr_pat of
        Wild ANY_ONE \<Rightarrow> match_any_one m
      | Wild BRANCH_LABEL \<Rightarrow> match_branch_label m
      | Instr _ \<Rightarrow> match_instr m
      | Wild ANY_ZERO_OR_MORE \<Rightarrow> match_any_zero_or_more m)"

definition match_step :: "PatternMatcher \<Rightarrow> error + step" where
  "match_step m =
     (if pat_idx m = pat_len m then Inr (Return True)
      else if cmd_idx m = length (pm_commands m) then Inr (Return False)
      else
        (case py_index (pm_pattern m) (pat_idx m) of
           Inl e \<Rightarrow> Inl e
         | Inr curr_pat \<Rightarrow>
             (case match_dispatch m curr_pat of
                Inl e \<Rightarrow> Inl e
              | Inr m' \<Rightarrow> Inr (Continue (m'\<lparr>cmd_idx := cmd_idx m' + 1\<rparr>)))))"

text \<open>
  The measure of the loop. While the command index is inside the command list it only grows;
  a matcher whose index is already beyond the list (no call of \<open>match\<close> produces one) can
  only go on through \<open>ANY_ONE\<close>, which moves the pattern index towards the end of the
  pattern.
\<close>

definition match_measure :: "PatternMatcher \<Rightarrow> nat" where
  "match_measure m =
     (if cmd_idx m < length (pm_commands m)
      then length (pm_commands m) - cmd_idx m + length (pm_pattern m) + 1
      else length (pm_pattern m) - pat_idx m)"

lemma match_dispatch_commands:
  "match_dispatch m p = Inr m' \<Longrightarrow>
     pm_commands m' = pm_commands m \<and> pm_pattern m' = pm_pattern m \<and>
     pat_len m' = pat_len m \<and> cmd_idx m' = cmd_idx m"
  by (auto simp: match_dispatch_def match_any_one_def match_branch_label_def match_instr_def
      match_any_zero_or_more_def record_match_def reset_match_def py_index_def Let_def
      split: pattern_elem.splits PatternWildcard.splits sum.splits command.splits if_splits)

lemma match_dispatch_beyond:
  "match_dispatch m p = Inr m' \<Longrightarrow> \<not> cmd_idx m < length (pm_commands m) \<Longrightarrow>
     pat_idx m' = pat_idx m + 1"
  by (auto simp: match_dispatch_def match_any_one_def match_branch_label_def match_instr_def
      match_any_zero_or_more_def record_match_def reset_match_def py_index_def Let_def
      split: pattern_elem.splits PatternWildcard.splits sum.splits command.splits if_splits)

lemma match_step_measure:
  assumes "match_step m = Inr (Continue m')"
  shows "match_measure m' < match_measure m"
proof -
  from assms obtain p m1 where
    p: "py_index (pm_pattern m) (pat_idx m) = Inr p" and
    d: "match_dispatch m p = Inr m1" and
    m': "m' = m1\<lparr>cmd_idx := cmd_idx m1 + 1\<rparr>" and
    ne: "cmd_idx m \<noteq> length (pm_commands m)"
    by (auto simp: match_step_def split: if_splits sum.splits)
  from p have lt: "pat_idx m < length (pm_pattern m)"
    by (auto simp: py_index_def split: if_splits)
  note same = match_dispatch_commands [OF d]
  show ?thesis
  proof (cases "cmd_idx m < length (pm_commands m)")
    case True
    with same m' show ?thesis by (auto simp: match_measure_def)
  next
    case False
    from match_dispatch_beyond [OF d False] have "pat_idx m1 = pat_idx m + 1" .
    with False same m' lt ne show ?thesis by (auto simp: match_measure_def)
  qed
qed

function match_loop :: "PatternMatcher \<Rightarrow> error + bool" where
  "match_loop m =
     (case match_step m of
        Inl e \<Rightarrow> Inl e
      | Inr (Return b) \<Rightarrow> Inr b
      | Inr (Continue m') \<Rightarrow> match_loop m')"
  by pat_completeness auto
termination
  by (relation "measure match_measure") (auto simp: match_step_measure)

text \<open>\<open>PatternMatcher(commands, pattern).match()\<close>\<close>

definition PatternMatcher_match :: "command list \<Rightarrow> pattern_elem list \<Rightarrow> error + bool" where
  "PatternMatcher_match cmds pat = match_loop (PatternMatcher_init cmds pat)"

declare match_loop.simps [simp del]

text \<open>
  The same loop with a bound on the number of iterations: \<open>None\<close> when the bound is
  reached before the loop has returned or raised.
\<close>

fun match_fuel :: "nat \<Rightarrow> PatternMatcher \<Rightarrow> (error + bool) option" where
  "match_fuel 0 m = None"
| "match_fuel (Suc n) m =
     (case match_step m of
        Inl e \<Rightarrow> Some (Inl e)
      | Inr (Return b) \<Rightarrow> Some (Inr b)
      | Inr (Continue m') \<Rightarrow> match_fuel n m')"

section \<open>The inspector\<close>

text \<open>\<open>PreSubroutineInspector.contains_instr\<close>: the \<open>for\<close> loop over the commands.\<close>

fun contains_instr_loop :: "command list \<Rightarrow> GenericInstr \<Rightarrow> bool" where
  "contains_instr_loop [] instr_type = False"
| "contains_instr_loop (cmd # cmds) instr_type =
     (let cmd_instr_type = (case cmd of ICmd i _ \<Rightarrow> Some i | BranchLabel _ \<Rightarrow> None)
      in if cmd_instr_type = Some instr_type then True
         else contains_instr_loop cmds instr_type)"

definition contains_instr :: "PreSubroutine \<Rightarrow> GenericInstr \<Rightarrow> bool" where
  "contains_instr subroutine instr_type = contains_instr_loop (commands subroutine) instr_type"

definition match_pattern :: "PreSubroutine \<Rightarrow> pattern_elem list \<Rightarrow> error + bool" where
  "match_pattern subroutine pat = PatternMatcher_match (commands subroutine) pat"

section \<open>Termination of the matcher\<close>

lemma match_step_advance:
  "match_step m = Inr (Continue m') \<Longrightarrow>
     cmd_idx m' = cmd_idx m + 1 \<and> pm_commands m' = pm_commands m \<and>
     pm_pattern m' = pm_pattern m \<and> pat_len m' = pat_len m"
  by (auto simp: match_step_def split: if_splits sum.splits dest: match_dispatch_commands)

lemma match_step_not_at_end:
  "match_step m = Inr (Continue m') \<Longrightarrow>
     cmd_idx m \<noteq> length (pm_commands m) \<and> pat_idx m \<noteq> pat_len m"
  by (auto simp: match_step_def split: if_splits)

lemma match_fuel_enough:
  "cmd_idx m \<le> length (pm_commands m) \<Longrightarrow> length (pm_commands m) - cmd_idx m < n \<Longrightarrow>
     match_fuel n m = Some (match_loop m)"
proof (induction n arbitrary: m)
  case 0
  then show ?case by simp
next
  case (Suc n)
  show ?case
  proof (cases "match_step m")
    case (Inl e)
    then show ?thesis by (simp add: match_loop.simps)
  next
    case (Inr s)
    show ?thesis
    proof (cases s)
      case (Return b)
      with Inr show ?thesis by (simp add: match_loop.simps)
    next
      case (Continue m')
      with Inr have st: "match_step m = Inr (Continue m')" by simp
      note adv = match_step_advance [OF st]
      from match_step_not_at_end [OF st] Suc.prems adv
      have "cmd_idx m' \<le> length (pm_commands m')"
        and "length (pm_commands m') - cmd_idx m' < n" by auto
      from Suc.IH [OF this] st show ?thesis
        by (simp add: match_loop.simps [of m])
    qed
  qed
qed

text \<open>
  Claim C10. \<open>PatternMatcher.match\<close> ends on every command list and every pattern: within
  \<open>len(commands) + 1\<close> iterations the loop has produced the outcome of the call (a returned
  boolean or a failed assertion), and an iteration that does not end the call advances the
  command index by exactly one.
\<close>

theorem match_terminates:
  "match_fuel (length cmds + 1) (PatternMatcher_init cmds pat)
     = Some (PatternMatcher_match cmds pat)
   \<and> (\<forall>m m'. match_step m = Inr (Continue m') \<longrightarrow> cmd_idx m' = cmd_idx m + 1)"
  using match_fuel_enough [of "PatternMatcher_init cmds pat" "length cmds + 1"]
  by (auto simp: PatternMatcher_match_def PatternMatcher_init_def dest: match_step_advance)

theorem match_terminates_witness:
  "match_fuel (length [ICmd H [], ICmd X []] + 1)
       (PatternMatcher_init [ICmd H [], ICmd X []] [Instr X]) = Some (Inr True)
   \<and> match_step (PatternMatcher_init [ICmd H [], ICmd X []] [Instr X])
       = Inr (Continue \<lparr> pm_commands = [ICmd H [], ICmd X []], pm_pattern = [Instr X],
                pat_len = 1, pat_idx = 0, cmd_idx = 1, match_start = None \<rparr>)
   \<and> cmd_idx \<lparr> pm_commands = [ICmd H [], ICmd X []], pm_pattern = [Instr X],
                pat_len = 1, pat_idx = 0, cmd_idx = 1, match_start = None \<rparr>
       = cmd_idx (PatternMatcher_init [ICmd H [], ICmd X []] [Instr X]) + 1"
proof -
  have s: "match_step (PatternMatcher_init [ICmd H [], ICmd X []] [Instr X])
       = Inr (Continue \<lparr> pm_commands = [ICmd H [], ICmd X []], pm_pattern = [Instr X],
                pat_len = 1, pat_idx = 0, cmd_idx = 1, match_start = None \<rparr>)"
    by (simp add: match_step_def PatternMatcher_init_def py_index_def match_dispatch_def
        match_instr_def reset_match_def)
  have r: "PatternMatcher_match [ICmd H [], ICmd X []] [Instr X] = Inr True"
    by code_simp
  note t = match_terminates [of "[ICmd H [], ICmd X []]" "[Instr X]"]
  from t r have a: "match_fuel (length [ICmd H [], ICmd X []] + 1)
       (PatternMatcher_init [ICmd H [], ICmd X []] [Instr X]) = Some (Inr True)"
    by (simp only:)
  from t s have b: "cmd_idx \<lparr> pm_commands = [ICmd H [], ICmd X []], pm_pattern = [Instr X],
                pat_len = 1, pat_idx = 0, cmd_idx = 1, match_start = None \<rparr>
       = cmd_idx (PatternMatcher_init [ICmd H [], ICmd X []] [Instr X]) + 1"
    by blast
  from a s b show ?thesis by (intro conjI)
qed

section \<open>Single-opcode queries\<close>

text \<open>
  The loop of \<open>match\<close> on a one-element pattern \<open>[op]\<close>, started at any command index
  with the pattern index at 0, scans the remaining commands for an \<open>ICmd\<close> with opcode
  \<open>op\<close>.
\<close>

lemma match_loop_single:
  assumes "pm_pattern m = [Instr op]" "pat_len m = 1" "pat_idx m = 0"
    "cmd_idx m \<le> length (pm_commands m)"
  shows "match_loop m = Inr (contains_instr_loop (drop (cmd_idx m) (pm_commands m)) op)"
  using assms
proof (induction "length (pm_commands m) - cmd_idx m" arbitrary: m)
  case 0
  then have e: "cmd_idx m = length (pm_commands m)" by simp
  with 0 have "match_step m = Inr (Return False)" by (simp add: match_step_def)
  with e show ?case by (simp add: match_loop.simps)
next
  case (Suc k)
  then have lt: "cmd_idx m < length (pm_commands m)" by simp
  let ?c = "pm_commands m ! cmd_idx m"
  have dr: "drop (cmd_idx m) (pm_commands m) = ?c # drop (Suc (cmd_idx m)) (pm_commands m)"
    using lt by (simp add: Cons_nth_drop_Suc)
  show ?case
  proof (cases "\<exists>ops. ?c = ICmd op ops")
    case True
    then obtain ops where c: "?c = ICmd op ops" by blast
    let ?m1 = "(record_match m)\<lparr>cmd_idx := cmd_idx m + 1\<rparr>"
    have st: "match_step m = Inr (Continue ?m1)"
      using Suc.prems lt c
      by (simp add: match_step_def py_index_def match_dispatch_def match_instr_def
          record_match_def Let_def)
    have "pat_idx ?m1 = pat_len ?m1" using Suc.prems by (simp add: record_match_def Let_def)
    then have "match_step ?m1 = Inr (Return True)" by (simp add: match_step_def)
    then have "match_loop ?m1 = Inr True" by (simp add: match_loop.simps)
    with st have "match_loop m = Inr True" by (simp add: match_loop.simps [of m])
    with dr c show ?thesis by simp
  next
    case False
    let ?m1 = "(reset_match m)\<lparr>cmd_idx := cmd_idx m + 1\<rparr>"
    have st: "match_step m = Inr (Continue ?m1)"
      using Suc.prems lt False
      by (auto simp: match_step_def py_index_def match_dispatch_def match_instr_def
          reset_match_def split: command.splits)
    have "match_loop ?m1 = Inr (contains_instr_loop (drop (cmd_idx ?m1) (pm_commands ?m1)) op)"
      using Suc.prems Suc.hyps lt by (intro Suc.hyps(1)) (auto simp: reset_match_def)
    with st have "match_loop m
        = Inr (contains_instr_loop (drop (Suc (cmd_idx m)) (pm_commands m)) op)"
      by (simp add: match_loop.simps [of m] reset_match_def)
    with dr False show ?thesis by (auto split: command.splits)
  qed
qed

text \<open>
  Claim C8. For every pre-subroutine and every opcode \<open>op\<close>, \<open>match_pattern([op])\<close> returns
  (it raises nothing) and its value is the value of \<open>contains_instr(op)\<close>; this covers the
  empty command list, where both are false.
\<close>

theorem contains_instr_eq_match_pattern:
  "match_pattern subroutine [Instr op] = Inr (contains_instr subroutine op)"
  using match_loop_single [of "PatternMatcher_init (commands subroutine) [Instr op]" op]
  by (simp add: match_pattern_def PatternMatcher_match_def contains_instr_def
      PatternMatcher_init_def)

section \<open>The matcher against the matching the specification describes\<close>

text \<open>
  The matching of section 6 of the specification, written from its words and not from the
  code: a literal opcode matches an \<open>ICmd\<close> with that opcode, \<open>ANY_ONE\<close> any single item,
  \<open>BRANCH_LABEL\<close> any label; \<open>ANY_ZERO_OR_MORE\<close> skips forward to the first item that the
  next pattern element matches (the minimal skip); the pattern may begin at any offset.
  \<open>ANY_ZERO_OR_MORE\<close> at the end of a pattern is forbidden there and matches nothing here.
\<close>

fun elem_matches :: "pattern_elem \<Rightarrow> command \<Rightarrow> bool" where
  "elem_matches (Instr p) (ICmd i _) = (i = p)"
| "elem_matches (Instr p) (BranchLabel _) = False"
| "elem_matches (Wild ANY_ONE) _ = True"
| "elem_matches (Wild BRANCH_LABEL) (BranchLabel _) = True"
| "elem_matches (Wild BRANCH_LABEL) (ICmd _ _) = False"
| "elem_matches (Wild ANY_ZERO_OR_MORE) _ = False"

fun spec_match_here :: "pattern_elem list \<Rightarrow> command list \<Rightarrow> bool" where
  "spec_match_here [] cs = True"
| "spec_match_here (Wild ANY_ZERO_OR_MORE # p # ps) (c # cs) =
     (if elem_matches p c then spec_match_here ps cs
      else spec_match_here (Wild ANY_ZERO_OR_MORE # p # ps) cs)"
| "spec_match_here (Wild ANY_ZERO_OR_MORE # ps) cs = False"
| "spec_match_here (p # ps) [] = False"
| "spec_match_here (p # ps) (c # cs) = (elem_matches p c \<and> spec_match_here ps cs)"

fun spec_match :: "pattern_elem list \<Rightarrow> command list \<Rightarrow> bool" where
  "spec_match pat [] = spec_match_here pat []"
| "spec_match pat (c # cs) = (spec_match_here pat (c # cs) \<or> spec_match pat cs)"

lemma spec_match_iff: "spec_match pat cs = (\<exists>k\<le>length cs. spec_match_here pat (drop k cs))"
proof (induction cs)
  case Nil
  then show ?case by simp
next
  case (Cons c cs)
  show ?case
  proof
    assume "spec_match pat (c # cs)"
    then consider "spec_match_here pat (c # cs)" | "spec_match pat cs" by auto
    then show "\<exists>k\<le>length (c # cs). spec_match_here pat (drop k (c # cs))"
    proof cases
      case 1
      then have "spec_match_here pat (drop 0 (c # cs))" by simp
      then show ?thesis by blast
    next
      case 2
      with Cons obtain k where "k \<le> length cs" "spec_match_here pat (drop k cs)" by blast
      then have "Suc k \<le> length (c # cs)" "spec_match_here pat (drop (Suc k) (c # cs))" by auto
      then show ?thesis by blast
    qed
  next
    assume "\<exists>k\<le>length (c # cs). spec_match_here pat (drop k (c # cs))"
    then obtain k where k: "k \<le> length (c # cs)" "spec_match_here pat (drop k (c # cs))" by blast
    show "spec_match pat (c # cs)"
    proof (cases k)
      case 0
      with k show ?thesis by simp
    next
      case (Suc j)
      with k have "j \<le> length cs" "spec_match_here pat (drop j cs)" by auto
      with Cons show ?thesis by auto
    qed
  qed
qed

lemma match_step_True:
  "match_step m = Inr (Return True) \<longleftrightarrow> pat_idx m = pat_len m"
  by (auto simp: match_step_def split: sum.splits)

lemma match_step_Continue_cases:
  assumes st: "match_step m = Inr (Continue m')"
    and len: "pat_len m = length (pm_pattern m)"
    and c: "cmd_idx m < length (pm_commands m)"
  shows "pat_idx m < length (pm_pattern m) \<and>
    ( (pm_pattern m ! pat_idx m \<noteq> Wild ANY_ZERO_OR_MORE \<and>
        elem_matches (pm_pattern m ! pat_idx m) (pm_commands m ! cmd_idx m) \<and>
        pat_idx m' = pat_idx m + 1)
    \<or> pat_idx m' = 0
    \<or> (pm_pattern m ! pat_idx m = Wild ANY_ZERO_OR_MORE \<and> pat_idx m + 1 < length (pm_pattern m) \<and>
        (elem_matches (pm_pattern m ! (pat_idx m + 1)) (pm_commands m ! cmd_idx m)
           \<and> pat_idx m' = pat_idx m + 2
         \<or> \<not> elem_matches (pm_pattern m ! (pat_idx m + 1)) (pm_commands m ! cmd_idx m)
           \<and> pat_idx m' = pat_idx m)))"
  using assms
  by (auto simp: match_step_def match_dispatch_def match_any_one_def match_branch_label_def
      match_instr_def match_any_zero_or_more_def record_match_def reset_match_def py_index_def
      Let_def
      split: pattern_elem.splits PatternWildcard.splits sum.splits command.splits if_splits)


lemma spec_match_here_step:
  assumes "p \<noteq> Wild ANY_ZERO_OR_MORE" "elem_matches p c" "spec_match_here ps cs"
  shows "spec_match_here (p # ps) (c # cs)"
  using assms by (cases "(p, c)" rule: elem_matches.cases) auto

lemma match_loop_sound:
  assumes "match_loop m = Inr True"
    and "pat_len m = length (pm_pattern m)"
    and "pat_idx m \<le> length (pm_pattern m)"
    and "cmd_idx m \<le> length (pm_commands m)"
  shows "spec_match_here (drop (pat_idx m) (pm_pattern m)) (drop (cmd_idx m) (pm_commands m))
       \<or> (\<exists>k. cmd_idx m < k \<and> k \<le> length (pm_commands m)
              \<and> spec_match_here (pm_pattern m) (drop k (pm_commands m)))"
  using assms
proof (induction m rule: match_loop.induct)
  case (1 m)
  show ?case
  proof (cases "match_step m")
    case (Inl e)
    with "1.prems"(1) show ?thesis by (simp add: match_loop.simps [of m])
  next
    case (Inr s)
    show ?thesis
    proof (cases s)
      case (Return b)
      with Inr "1.prems"(1) have "match_step m = Inr (Return True)"
        by (simp add: match_loop.simps [of m])
      then have "pat_idx m = pat_len m" by (simp add: match_step_True)
      with "1.prems"(2) show ?thesis by simp
    next
      case (Continue m')
      with Inr have st: "match_step m = Inr (Continue m')" by simp
      note adv = match_step_advance [OF st]
      from match_step_not_at_end [OF st] "1.prems"(4)
      have c: "cmd_idx m < length (pm_commands m)" by simp
      note cs = match_step_Continue_cases [OF st "1.prems"(2) c]
      then have p: "pat_idx m < length (pm_pattern m)" by simp
      from cs have p': "pat_idx m' \<le> length (pm_pattern m')" using adv by (auto split: if_splits)
      have l': "match_loop m' = Inr True" using "1.prems"(1) st
        by (simp add: match_loop.simps [of m])
      have ih: "spec_match_here (drop (pat_idx m') (pm_pattern m)) (drop (Suc (cmd_idx m)) (pm_commands m))
         \<or> (\<exists>k. Suc (cmd_idx m) < k \<and> k \<le> length (pm_commands m)
              \<and> spec_match_here (pm_pattern m) (drop k (pm_commands m)))"
        using "1.IH" [OF Inr Continue l'] adv "1.prems"(2) p' c by simp
      show ?thesis
      proof (cases "\<exists>k. Suc (cmd_idx m) < k \<and> k \<le> length (pm_commands m)
              \<and> spec_match_here (pm_pattern m) (drop k (pm_commands m))")
        case True
        then show ?thesis by (meson Suc_lessD)
      next
        case False
        with ih have h: "spec_match_here (drop (pat_idx m') (pm_pattern m))
            (drop (Suc (cmd_idx m)) (pm_commands m))" by blast
        have dc: "drop (cmd_idx m) (pm_commands m)
            = pm_commands m ! cmd_idx m # drop (Suc (cmd_idx m)) (pm_commands m)"
          using c by (simp add: Cons_nth_drop_Suc)
        have dp: "drop (pat_idx m) (pm_pattern m)
            = pm_pattern m ! pat_idx m # drop (Suc (pat_idx m)) (pm_pattern m)"
          using p by (simp add: Cons_nth_drop_Suc)
        from cs consider
          (rec) "pm_pattern m ! pat_idx m \<noteq> Wild ANY_ZERO_OR_MORE"
            "elem_matches (pm_pattern m ! pat_idx m) (pm_commands m ! cmd_idx m)"
            "pat_idx m' = pat_idx m + 1"
          | (reset) "pat_idx m' = 0"
          | (skip) "pm_pattern m ! pat_idx m = Wild ANY_ZERO_OR_MORE"
            "pat_idx m + 1 < length (pm_pattern m)"
            "elem_matches (pm_pattern m ! (pat_idx m + 1)) (pm_commands m ! cmd_idx m)
               \<and> pat_idx m' = pat_idx m + 2
             \<or> \<not> elem_matches (pm_pattern m ! (pat_idx m + 1)) (pm_commands m ! cmd_idx m)
               \<and> pat_idx m' = pat_idx m"
          by auto
        then show ?thesis
        proof cases
          case rec
          with h dc dp show ?thesis by (simp add: spec_match_here_step)
        next
          case reset
          with h c have "Suc (cmd_idx m) \<le> length (pm_commands m)"
            "spec_match_here (pm_pattern m) (drop (Suc (cmd_idx m)) (pm_commands m))" by auto
          then show ?thesis by (meson lessI)
        next
          case skip
          have dp2: "drop (Suc (pat_idx m)) (pm_pattern m)
            = pm_pattern m ! (pat_idx m + 1) # drop (pat_idx m + 2) (pm_pattern m)"
            using skip(2) by (simp add: Cons_nth_drop_Suc)
          show ?thesis
          proof (cases "elem_matches (pm_pattern m ! (pat_idx m + 1)) (pm_commands m ! cmd_idx m)")
            case True
            with skip(3) have "pat_idx m' = pat_idx m + 2" by blast
            with True skip(1) h dc dp dp2 show ?thesis by simp
          next
            case False
            with skip(3) have "pat_idx m' = pat_idx m" by blast
            with h have "spec_match_here (drop (pat_idx m) (pm_pattern m))
              (drop (Suc (cmd_idx m)) (pm_commands m))" by simp
            with False skip(1) dc dp dp2 show ?thesis by simp
          qed
        qed
      qed
    qed
  qed
qed

lemma PatternMatcher_match_sound:
  "PatternMatcher_match cmds pat = Inr True \<Longrightarrow> spec_match pat cmds"
proof -
  assume "PatternMatcher_match cmds pat = Inr True"
  then have "match_loop (PatternMatcher_init cmds pat) = Inr True"
    by (simp add: PatternMatcher_match_def)
  from match_loop_sound [OF this]
  have "spec_match_here pat cmds \<or> (\<exists>k. 0 < k \<and> k \<le> length cmds \<and> spec_match_here pat (drop k cmds))"
    by (simp add: PatternMatcher_init_def)
  then have "\<exists>k\<le>length cmds. spec_match_here pat (drop k cmds)"
    by (metis drop0 le0)
  then show ?thesis by (simp add: spec_match_iff)
qed

text \<open>
  Claim C1, at the input where the code departs from it. The pattern \<open>[X, H]\<close> matches the
  commands \<open>X, X, H\<close> consecutively from offset 1, and \<open>match\<close> returns false: the second
  \<open>X\<close> is compared with the pattern element \<open>H\<close>, the match is reset, and the command
  index moves past that \<open>X\<close> without trying it as the start of a match.
\<close>

theorem match_misses_match_at_offset_one:
  "PatternMatcher_match [ICmd X [], ICmd X [], ICmd H []] [Instr X, Instr H] = Inr False
   \<and> spec_match_here [Instr X, Instr H] (drop 1 [ICmd X [], ICmd X [], ICmd H []])
   \<and> spec_match [Instr X, Instr H] [ICmd X [], ICmd X [], ICmd H []]"
  by code_simp

section \<open>Invalid patterns\<close>

text \<open>
  The patterns that the specification calls invalid: \<open>ANY_ZERO_OR_MORE\<close> at the start of
  the pattern, at its end, or directly followed by \<open>ANY_ONE\<close> or \<open>ANY_ZERO_OR_MORE\<close>.
\<close>

fun azm_before_wildcard :: "pattern_elem list \<Rightarrow> bool" where
  "azm_before_wildcard (Wild ANY_ZERO_OR_MORE # Wild ANY_ONE # ps) = True"
| "azm_before_wildcard (Wild ANY_ZERO_OR_MORE # Wild ANY_ZERO_OR_MORE # ps) = True"
| "azm_before_wildcard (p # ps) = azm_before_wildcard ps"
| "azm_before_wildcard [] = False"

definition pattern_invalid :: "pattern_elem list \<Rightarrow> bool" where
  "pattern_invalid pat =
     (case pat of
        [] \<Rightarrow> False
      | p # ps \<Rightarrow> p = Wild ANY_ZERO_OR_MORE \<or> last pat = Wild ANY_ZERO_OR_MORE
                 \<or> azm_before_wildcard pat)"

lemma match_step_invalid_wildcard:
  assumes "pat_idx m \<noteq> pat_len m" "cmd_idx m \<noteq> length (pm_commands m)"
    and "py_index (pm_pattern m) (pat_idx m) = Inr (Wild ANY_ZERO_OR_MORE)"
    and "pat_idx m = 0 \<or> \<not> pat_idx m + 1 < pat_len m
         \<or> py_index (pm_pattern m) (pat_idx m + 1) = Inr (Wild ANY_ONE)
         \<or> py_index (pm_pattern m) (pat_idx m + 1) = Inr (Wild ANY_ZERO_OR_MORE)"
  shows "match_step m = Inl AssertionError"
  using assms
  by (auto simp: match_step_def match_dispatch_def match_any_zero_or_more_def)

lemma match_empty_commands: "PatternMatcher_match [] pat = Inr (pat = [])"
  by (auto simp: PatternMatcher_match_def match_loop.simps match_step_def PatternMatcher_init_def)

text \<open>
  Claim C7 as stated fails: \<open>__init__\<close> stores its arguments and validates nothing, and
  \<open>match\<close> returns false without any assertion on invalid patterns when the loop does not
  reach the wildcard with a command left; with one more command the same pattern raises.
\<close>

theorem invalid_pattern_not_always_detected:
  "pattern_invalid [Wild ANY_ZERO_OR_MORE]
   \<and> PatternMatcher_match [] [Wild ANY_ZERO_OR_MORE] = Inr False
   \<and> pattern_invalid [Instr X, Wild ANY_ZERO_OR_MORE]
   \<and> PatternMatcher_match [ICmd H []] [Instr X, Wild ANY_ZERO_OR_MORE] = Inr False
   \<and> PatternMatcher_match [ICmd X [], ICmd H []] [Instr X, Wild ANY_ZERO_OR_MORE]
       = Inl AssertionError
   \<and> pattern_invalid [Instr X, Wild ANY_ZERO_OR_MORE, Wild ANY_ONE]
   \<and> PatternMatcher_match [ICmd H []] [Instr X, Wild ANY_ZERO_OR_MORE, Wild ANY_ONE]
       = Inr False"
  by code_simp

text \<open>
  Claim C7, amended. The assertions are those of \<open>_match_any_zero_or_more\<close>: when the loop
  of \<open>match\<close> stands on an \<open>ANY_ZERO_OR_MORE\<close> that is the first element of the pattern, its
  last element, or directly followed by \<open>ANY_ONE\<close> or \<open>ANY_ZERO_OR_MORE\<close>, and a command is
  left to examine, the call fails with an \<open>AssertionError\<close>. So a pattern that starts with
  \<open>ANY_ZERO_OR_MORE\<close> raises on every non-empty command list, and on the empty command list
  no pattern raises: the call returns whether the pattern is empty.
\<close>

theorem invalid_wildcard_raises_when_reached:
  "(pat_idx m \<noteq> pat_len m \<and> cmd_idx m \<noteq> length (pm_commands m)
      \<and> py_index (pm_pattern m) (pat_idx m) = Inr (Wild ANY_ZERO_OR_MORE)
      \<and> (pat_idx m = 0 \<or> \<not> pat_idx m + 1 < pat_len m
           \<or> py_index (pm_pattern m) (pat_idx m + 1) = Inr (Wild ANY_ONE)
           \<or> py_index (pm_pattern m) (pat_idx m + 1) = Inr (Wild ANY_ZERO_OR_MORE))
     \<longrightarrow> match_loop m = Inl AssertionError)
   \<and> (cmds \<noteq> [] \<longrightarrow> PatternMatcher_match cmds (Wild ANY_ZERO_OR_MORE # ps) = Inl AssertionError)
   \<and> PatternMatcher_match [] pat = Inr (pat = [])"
proof (intro conjI impI)
  assume a: "pat_idx m \<noteq> pat_len m \<and> cmd_idx m \<noteq> length (pm_commands m)
      \<and> py_index (pm_pattern m) (pat_idx m) = Inr (Wild ANY_ZERO_OR_MORE)
      \<and> (pat_idx m = 0 \<or> \<not> pat_idx m + 1 < pat_len m
           \<or> py_index (pm_pattern m) (pat_idx m + 1) = Inr (Wild ANY_ONE)
           \<or> py_index (pm_pattern m) (pat_idx m + 1) = Inr (Wild ANY_ZERO_OR_MORE))"
  then have "match_step m = Inl AssertionError"
    by (intro match_step_invalid_wildcard) simp_all
  then show "match_loop m = Inl AssertionError" by (simp add: match_loop.simps)
next
  assume "cmds \<noteq> []"
  then have "match_step (PatternMatcher_init cmds (Wild ANY_ZERO_OR_MORE # ps)) = Inl AssertionError"
    by (intro match_step_invalid_wildcard) (simp_all add: PatternMatcher_init_def py_index_def)
  then show "PatternMatcher_match cmds (Wild ANY_ZERO_OR_MORE # ps) = Inl AssertionError"
    by (simp add: PatternMatcher_match_def match_loop.simps)
next
  show "PatternMatcher_match [] pat = Inr (pat = [])" by (rule match_empty_commands)
qed

theorem invalid_wildcard_raises_when_reached_witness:
  "(pat_idx \<lparr> pm_commands = [ICmd X [], ICmd H []],
               pm_pattern = [Instr X, Wild ANY_ZERO_OR_MORE],
               pat_len = 2, pat_idx = 1, cmd_idx = 1, match_start = Some 0 \<rparr> \<noteq> 2
    \<and> py_index [Instr X, Wild ANY_ZERO_OR_MORE] 1 = Inr (Wild ANY_ZERO_OR_MORE)
    \<and> \<not> (1::nat) + 1 < 2)
   \<and> match_loop \<lparr> pm_commands = [ICmd X [], ICmd H []],
                  pm_pattern = [Instr X, Wild ANY_ZERO_OR_MORE],
                  pat_len = 2, pat_idx = 1, cmd_idx = 1, match_start = Some 0 \<rparr>
       = Inl AssertionError
   \<and> [ICmd X []] \<noteq> []
   \<and> PatternMatcher_match [ICmd X []] [Wild ANY_ZERO_OR_MORE] = Inl AssertionError
   \<and> PatternMatcher_match [] [Wild ANY_ZERO_OR_MORE] = Inr False"
  using invalid_wildcard_raises_when_reached
    [of "\<lparr> pm_commands = [ICmd X [], ICmd H []],
           pm_pattern = [Instr X, Wild ANY_ZERO_OR_MORE],
           pat_len = 2, pat_idx = 1, cmd_idx = 1, match_start = Some 0 \<rparr>"
        "[ICmd X []]" "[]" "[Wild ANY_ZERO_OR_MORE]"]
  by (simp add: py_index_def)

section \<open>The builder\<close>

text \<open>
  Modelled from the spec: the builder (reached as \<open>conn._builder\<close>) and the futures
  (\<open>netqasm.sdk.futures\<close>) are not among the sources; \<open>qubit.py\<close> only calls them. The definitions of this section follow sections 3, 4.1 and 4.2 of the
  specification: an array handle is (address, length); a future is backed by an array cell
  or by a register; the allocators are increasing counters; every emit appends to the
  pending pre-subroutine.
\<close>

text \<open>References to \<open>Qubit\<close> objects, and connections.\<close>

type_synonym qref = nat
type_synonym conn = nat

record array_handle =
  address :: nat
  array_length :: nat

datatype future = ArrayFuture array_handle operand | RegFuture reg_role int

text \<open>
  The field \<open>active_qubits\<close> is the list that \<open>qubit.py\<close> reads and updates; it holds
  references to \<open>Qubit\<close> objects.
\<close>

record Builder =
  active_qubits :: "qref list"
  pending :: "command list"
  next_qubit_id :: int
  next_reg_index :: "reg_role \<Rightarrow> int"
  next_array_address :: nat

text \<open>Modelled from the spec: section 4.2, every emit appends in order.\<close>

definition emit :: "command list \<Rightarrow> Builder \<Rightarrow> Builder" where
  "emit cmds b = b\<lparr>pending := pending b @ cmds\<rparr>"

text \<open>Modelled from the spec: section 4.1, the counter \<open>next_qubit_id\<close>.\<close>

definition new_qubit_id :: "Builder \<Rightarrow> int \<times> Builder" where
  "new_qubit_id b = (next_qubit_id b, b\<lparr>next_qubit_id := next_qubit_id b + 1\<rparr>)"

text \<open>Modelled from the spec: section 4.1, the counters \<open>next_reg_index[role]\<close>.\<close>

definition new_register :: "reg_role \<Rightarrow> Builder \<Rightarrow> int \<times> Builder" where
  "new_register role b =
     (next_reg_index b role,
      b\<lparr>next_reg_index := (next_reg_index b)(role := next_reg_index b role + 1)\<rparr>)"

text \<open>Modelled from the spec: section 3, construction emits \<open>QALLOC; INIT; SET Q<id> <virtual_id>\<close>.\<close>

definition add_new_qubit_commands :: "int \<Rightarrow> Builder \<Rightarrow> Builder" where
  "add_new_qubit_commands qid b =
     emit [ICmd QALLOC [Reg RoleQ qid], ICmd INIT [Reg RoleQ qid],
           ICmd SET [Reg RoleQ qid, Imm qid]] b"

text \<open>Modelled from the spec: section 4.2, the \<open>SET\<close> of the operand register, then the gate.\<close>

definition add_single_qubit_commands :: "GenericInstr \<Rightarrow> int \<Rightarrow> Builder \<Rightarrow> Builder" where
  "add_single_qubit_commands instr qid b =
     emit [ICmd SET [Reg RoleQ qid, Imm qid], ICmd instr [Reg RoleQ qid]] b"

text \<open>Modelled from the spec: section 4.2, the \<open>SET\<close> of both operand registers, then the gate.\<close>

definition add_two_qubit_commands ::
  "GenericInstr \<Rightarrow> int \<Rightarrow> int \<Rightarrow> Builder \<Rightarrow> Builder" where
  "add_two_qubit_commands instr control_qubit_id target_qubit_id b =
     emit [ICmd SET [Reg RoleQ control_qubit_id, Imm control_qubit_id],
           ICmd SET [Reg RoleQ target_qubit_id, Imm target_qubit_id],
           ICmd instr [Reg RoleQ control_qubit_id, Reg RoleQ target_qubit_id]] b"

text \<open>
  Modelled from the spec: section 4.2, one rotation instruction with immediate \<open>n, d\<close>, or
  one per pair of the approximation of \<open>angle\<close>.
  The approximation of a floating-point \<open>angle\<close> by pairs \<open>(n, d)\<close> is a numerical
  computation outside this model: a given angle is represented by the sequence of pairs
  that its approximation yields.
\<close>

definition add_single_qubit_rotation_commands ::
  "GenericInstr \<Rightarrow> int \<Rightarrow> int \<Rightarrow> int \<Rightarrow> (int \<times> int) list option \<Rightarrow> Builder \<Rightarrow> Builder" where
  "add_single_qubit_rotation_commands instr qid n d angle b =
     (case angle of
        None \<Rightarrow> emit [ICmd instr [Reg RoleQ qid, Imm n, Imm d]] b
      | Some nds \<Rightarrow>
          emit (map (\<lambda>(ni, di). ICmd instr [Reg RoleQ qid, Imm ni, Imm di]) nds) b)"

text \<open>Modelled from the spec: section 3, writing a future emits a \<open>STORE\<close> into its backing cell or register.\<close>

definition store_commands :: "operand \<Rightarrow> future \<Rightarrow> command list" where
  "store_commands src fut =
     (case fut of
        ArrayFuture arr idx \<Rightarrow> [ICmd STORE [src, ArrayEntry (address arr) idx]]
      | RegFuture role i \<Rightarrow> [ICmd STORE [src, Reg role i]])"

text \<open>
  Modelled from the spec: \<open>add_measure_commands\<close> is not among the sources. It emits the
  \<open>MEAS\<close> of the qubit into an outcome register, the \<open>QFREE\<close> unless \<open>inplace\<close>, and the
  \<open>STORE\<close> into the future. The specification gives the order of the last two twice:
  section 4.2 lists the \<open>STORE\<close> before the \<open>QFREE\<close>, and scenario S3 requires the
  consecutive items \<open>MEAS, QFREE, STORE\<close>, as the pattern asserted by \<open>test_futures\<close> in
  \<open>tests/test_builder.py\<close> does. The definition follows the test and S3. The test covers
  the destructive call with default arguments; the other calls are lowered by the same
  template.
\<close>

definition add_measure_commands :: "int \<Rightarrow> future \<Rightarrow> bool \<Rightarrow> Builder \<Rightarrow> Builder" where
  "add_measure_commands qid fut inplace b =
     (let (out, b1) = new_register RoleR b
      in emit ([ICmd MEAS [Reg RoleQ qid, Reg RoleR out]]
               @ (if inplace then [] else [ICmd QFREE [Reg RoleQ qid]])
               @ store_commands (Reg RoleR out) fut) b1)"

text \<open>Modelled from the spec: section 4.2, \<open>add_init_qubit_commands(id)\<close> emits \<open>INIT\<close>.\<close>

definition add_init_qubit_commands :: "int \<Rightarrow> Builder \<Rightarrow> Builder" where
  "add_init_qubit_commands qid b = emit [ICmd INIT [Reg RoleQ qid]] b"

text \<open>Modelled from the spec: section 4.2, \<open>add_qfree_commands(id)\<close> emits \<open>QFREE\<close>.\<close>

definition add_qfree_commands :: "int \<Rightarrow> Builder \<Rightarrow> Builder" where
  "add_qfree_commands qid b = emit [ICmd QFREE [Reg RoleQ qid]] b"

text \<open>Modelled from the spec: section 4.2, \<open>new_array(length)\<close> allocates an address, emits \<open>ARRAY\<close> and returns the handle.\<close>

definition new_array :: "nat \<Rightarrow> Builder \<Rightarrow> array_handle \<times> Builder" where
  "new_array len b =
     (let arr = \<lparr>address = next_array_address b, array_length = len\<rparr>
      in (arr, emit [ICmd ARRAY [Imm (int len), ArrayHandle (address arr)]]
                 (b\<lparr>next_array_address := next_array_address b + 1\<rparr>)))"

text \<open>Modelled from the spec: section 3, an array future is (array, index).\<close>

definition get_future_index :: "array_handle \<Rightarrow> int \<Rightarrow> future" where
  "get_future_index arr i = ArrayFuture arr (Imm i)"

text \<open>Modelled from the spec: section 3, a register future lives in a register; \<open>RegFuture(conn)\<close> takes a fresh one.\<close>

definition RegFuture_init :: "Builder \<Rightarrow> future \<times> Builder" where
  "RegFuture_init b = (let (i, b1) = new_register RoleR b in (RegFuture RoleR i, b1))"

text \<open>The builder of a connection on which nothing has happened yet.\<close>

definition empty_builder :: Builder where
  "empty_builder = \<lparr>active_qubits = [], pending = [], next_qubit_id = 0,
                     next_reg_index = (\<lambda>_. 0), next_array_address = 0\<rparr>"

text \<open>The opcodes of the instructions of a command list, labels left out.\<close>

fun opcodes :: "command list \<Rightarrow> GenericInstr list" where
  "opcodes [] = []"
| "opcodes (ICmd i _ # cs) = i # opcodes cs"
| "opcodes (BranchLabel _ # cs) = opcodes cs"

section \<open>Qubit handles\<close>

text \<open>
  The fields of a \<open>Qubit\<close> object (\<open>_conn\<close>, \<open>_qubit_id\<close>, \<open>_active\<close>, \<open>_ent_info\<close>,
  \<open>_remote_ent_node\<close>). A connection is identified with the builder it owns; of the
  entanglement information only the remote node id is kept.
\<close>

record Qubit =
  q_conn :: conn
  q_qubit_id :: int
  q_active :: bool
  q_ent_info :: "nat option"
  q_remote_ent_node :: "string option"

text \<open>
  \<open>Qubit\<close> defines no \<open>__eq__\<close>, so \<open>self in active_qubits\<close> compares object identities,
  and the handle and the list of its builder are shared mutable objects. The state is
  therefore a store: the \<open>Qubit\<close> object of every reference, the next unused reference
  (the references below it denote the objects constructed so far), and the builder of
  every connection.
\<close>

record state =
  qubits :: "qref \<Rightarrow> Qubit"
  next_ref :: qref
  builders :: "conn \<Rightarrow> Builder"

definition init_state :: state where
  "init_state = \<lparr>qubits = (\<lambda>_. \<lparr>q_conn = 0, q_qubit_id = 0, q_active = False,
                                 q_ent_info = None, q_remote_ent_node = None\<rparr>),
                 next_ref = 0, builders = (\<lambda>_. empty_builder)\<rparr>"

text \<open>\<open>self._conn._builder\<close>\<close>

definition builder_of :: "state \<Rightarrow> qref \<Rightarrow> Builder" where
  "builder_of s r = builders s (q_conn (qubits s r))"

definition set_builder :: "state \<Rightarrow> conn \<Rightarrow> Builder \<Rightarrow> state" where
  "set_builder s c b = s\<lparr>builders := (builders s)(c := b)\<rparr>"

definition on_builder :: "state \<Rightarrow> conn \<Rightarrow> (Builder \<Rightarrow> Builder) \<Rightarrow> state" where
  "on_builder s c f = set_builder s c (f (builders s c))"

text \<open>The assignment \<open>self._active = v\<close>.\<close>

definition set_flag :: "state \<Rightarrow> qref \<Rightarrow> bool \<Rightarrow> state" where
  "set_flag s r v = s\<lparr>qubits := (qubits s)(r := (qubits s r)\<lparr>q_active := v\<rparr>)\<rparr>"

definition activate :: "state \<Rightarrow> qref \<Rightarrow> state" where
  "activate s r =
     (let s1 = set_flag s r True
      in if r \<notin> set (active_qubits (builder_of s1 r))
         then on_builder s1 (q_conn (qubits s1 r))
                (\<lambda>b. b\<lparr>active_qubits := active_qubits b @ [r]\<rparr>)
         else s1)"

text \<open>\<open>list.remove\<close> deletes the first occurrence.\<close>

definition deactivate :: "state \<Rightarrow> qref \<Rightarrow> state" where
  "deactivate s r =
     (let s1 = set_flag s r False
      in if r \<in> set (active_qubits (builder_of s1 r))
         then on_builder s1 (q_conn (qubits s1 r))
                (\<lambda>b. b\<lparr>active_qubits := remove1 r (active_qubits b)\<rparr>)
         else s1)"

text \<open>The setter of the property \<open>active\<close>.\<close>

definition Qubit_set_active :: "state \<Rightarrow> qref \<Rightarrow> bool \<Rightarrow> state" where
  "Qubit_set_active s r v =
     (if q_active (qubits s r) = v then s
      else let s1 = set_flag s r v
           in if v then activate s1 r else deactivate s1 r)"

text \<open>\<open>Qubit.__init__\<close>; the new object gets the next unused reference.\<close>

definition Qubit_init ::
  "state \<Rightarrow> conn \<Rightarrow> bool \<Rightarrow> nat option \<Rightarrow> int option \<Rightarrow> qref \<times> state" where
  "Qubit_init s c add_new_command ent virtual_address =
     (let (qid, s1) =
            (case virtual_address of
               None \<Rightarrow> (let (i, b1) = new_qubit_id (builders s c) in (i, set_builder s c b1))
             | Some v \<Rightarrow> (v, s));
          s2 = (if add_new_command then on_builder s1 c (add_new_qubit_commands qid) else s1);
          r = next_ref s2;
          s3 = s2\<lparr>qubits := (qubits s2)
                      (r := \<lparr>q_conn = c, q_qubit_id = qid, q_active = False,
                             q_ent_info = None, q_remote_ent_node = None\<rparr>),
                  next_ref := r + 1\<rparr>;
          s4 = activate s3 r;
          s5 = s4\<lparr>qubits := (qubits s4)
                      (r := (qubits s4 r)\<lparr>q_ent_info := ent, q_remote_ent_node := None\<rparr>)\<rparr>
      in (r, s5))"

definition assert_active :: "state \<Rightarrow> qref \<Rightarrow> error + unit" where
  "assert_active s r = (if \<not> q_active (qubits s r) then Inl QubitNotActiveError else Inr ())"

text \<open>
  \<open>Qubit.measure\<close> after its check: the choice of the future and the call of
  \<open>add_measure_commands\<close>.
\<close>

definition measure_lowering ::
  "state \<Rightarrow> qref \<Rightarrow> future option \<Rightarrow> bool \<Rightarrow> bool \<Rightarrow> future \<times> state" where
  "measure_lowering s r fut inplace store_array =
     (let c = q_conn (qubits s r);
          (f, s1) =
            (case fut of
               Some f \<Rightarrow> (f, s)
             | None \<Rightarrow>
                 (if store_array
                  then (let (arr, b1) = new_array 1 (builders s c)
                        in (get_future_index arr 0, set_builder s c b1))
                  else (let (f, b1) = RegFuture_init (builders s c)
                        in (f, set_builder s c b1))))
      in (f, on_builder s1 c (add_measure_commands (q_qubit_id (qubits s r)) f inplace)))"

definition Qubit_measure ::
  "state \<Rightarrow> qref \<Rightarrow> future option \<Rightarrow> bool \<Rightarrow> bool \<Rightarrow> error + future \<times> state" where
  "Qubit_measure s r fut inplace store_array =
     (case assert_active s r of
        Inl e \<Rightarrow> Inl e
      | Inr _ \<Rightarrow>
          (let (f, s2) = measure_lowering s r fut inplace store_array;
               s3 = (if \<not> inplace then Qubit_set_active s2 r False else s2)
           in Inr (f, s3)))"

text \<open>
  \<open>Qubit.measure\<close> with the builder call as a parameter. The builder is not among the
  sources, and a method of it is free to read and update whatever it can reach (its
  pending commands, its allocators, the handles in \<open>active_qubits\<close>) and to raise: the call
  \<open>self._conn._builder.add_measure_commands(qubit_id, future, inplace)\<close> is therefore any
  function of the state, the connection and the three arguments.
\<close>

type_synonym lowering = "state \<Rightarrow> conn \<Rightarrow> int \<Rightarrow> future \<Rightarrow> bool \<Rightarrow> error + state"

text \<open>The block \<open>if future is None: ...\<close> of \<open>measure\<close>.\<close>

definition choose_future :: "state \<Rightarrow> qref \<Rightarrow> future option \<Rightarrow> bool \<Rightarrow> future \<times> state" where
  "choose_future s r fut store_array =
     (let c = q_conn (qubits s r)
      in case fut of
           Some f \<Rightarrow> (f, s)
         | None \<Rightarrow>
             (if store_array
              then (let (arr, b1) = new_array 1 (builders s c)
                    in (get_future_index arr 0, set_builder s c b1))
              else (let (f, b1) = RegFuture_init (builders s c)
                    in (f, set_builder s c b1))))"

definition Qubit_measure_with ::
  "lowering \<Rightarrow> state \<Rightarrow> qref \<Rightarrow> future option \<Rightarrow> bool \<Rightarrow> bool \<Rightarrow> error + future \<times> state" where
  "Qubit_measure_with amc s r fut inplace store_array =
     (case assert_active s r of
        Inl e \<Rightarrow> Inl e
      | Inr _ \<Rightarrow>
          (let (f, s1) = choose_future s r fut store_array
           in case amc s1 (q_conn (qubits s1 r)) (q_qubit_id (qubits s1 r)) f inplace of
                Inl e \<Rightarrow> Inl e
              | Inr s2 \<Rightarrow>
                  Inr (f, if \<not> inplace then Qubit_set_active s2 r False else s2)))"

text \<open>A builder method that only changes its own builder, such as the modelled ones.\<close>

definition builder_lowering :: "(int \<Rightarrow> future \<Rightarrow> bool \<Rightarrow> Builder \<Rightarrow> Builder) \<Rightarrow> lowering" where
  "builder_lowering emit_measure s c qid fut inplace =
     Inr (on_builder s c (emit_measure qid fut inplace))"

text \<open>
  For comparison only, not in the sources: a \<open>measure\<close> that assigns \<open>active = False\<close>
  before it calls the builder.
\<close>

definition Qubit_measure_early ::
  "lowering \<Rightarrow> state \<Rightarrow> qref \<Rightarrow> future option \<Rightarrow> bool \<Rightarrow> bool \<Rightarrow> error + future \<times> state" where
  "Qubit_measure_early amc s r fut inplace store_array =
     (case assert_active s r of
        Inl e \<Rightarrow> Inl e
      | Inr _ \<Rightarrow>
          (let (f, s1) = choose_future s r fut store_array;
               s2 = (if \<not> inplace then Qubit_set_active s1 r False else s1)
           in case amc s2 (q_conn (qubits s1 r)) (q_qubit_id (qubits s1 r)) f inplace of
                Inl e \<Rightarrow> Inl e
              | Inr s3 \<Rightarrow> Inr (f, s3)))"

text \<open>
  For comparison only, not in the sources: a lowering that refuses a qubit id which no
  handle in \<open>active_qubits\<close> carries, and otherwise emits as the modelled one does. It tells
  the two orders apart.
\<close>

definition checking_lowering :: lowering where
  "checking_lowering s c qid fut inplace =
     (if list_ex (\<lambda>r. q_qubit_id (qubits s r) = qid) (active_qubits (builders s c))
      then Inr (on_builder s c (add_measure_commands qid fut inplace))
      else Inl AssertionError)"

text \<open>
  The gate methods hand the qubit id to the builder and do nothing else. The seven
  single-qubit gates share one body up to the opcode.
\<close>

definition single_qubit_gate :: "GenericInstr \<Rightarrow> state \<Rightarrow> qref \<Rightarrow> error + state" where
  "single_qubit_gate instr s r =
     Inr (on_builder s (q_conn (qubits s r))
            (add_single_qubit_commands instr (q_qubit_id (qubits s r))))"

definition Qubit_X :: "state \<Rightarrow> qref \<Rightarrow> error + state" where
  "Qubit_X s r = single_qubit_gate X s r"

definition Qubit_Y :: "state \<Rightarrow> qref \<Rightarrow> error + state" where
  "Qubit_Y s r = single_qubit_gate Y s r"

definition Qubit_Z :: "state \<Rightarrow> qref \<Rightarrow> error + state" where
  "Qubit_Z s r = single_qubit_gate Z s r"

definition Qubit_T :: "state \<Rightarrow> qref \<Rightarrow> error + state" where
  "Qubit_T s r = single_qubit_gate T s r"

definition Qubit_H :: "state \<Rightarrow> qref \<Rightarrow> error + state" where
  "Qubit_H s r = single_qubit_gate H s r"

definition Qubit_K :: "state \<Rightarrow> qref \<Rightarrow> error + state" where
  "Qubit_K s r = single_qubit_gate K s r"

definition Qubit_S :: "state \<Rightarrow> qref \<Rightarrow> error + state" where
  "Qubit_S s r = single_qubit_gate S s r"

definition rotation ::
  "GenericInstr \<Rightarrow> state \<Rightarrow> qref \<Rightarrow> int \<Rightarrow> int \<Rightarrow> (int \<times> int) list option \<Rightarrow> error + state" where
  "rotation instr s r n d angle =
     Inr (on_builder s (q_conn (qubits s r))
            (add_single_qubit_rotation_commands instr (q_qubit_id (qubits s r)) n d angle))"

definition Qubit_rot_X ::
  "state \<Rightarrow> qref \<Rightarrow> int \<Rightarrow> int \<Rightarrow> (int \<times> int) list option \<Rightarrow> error + state" where
  "Qubit_rot_X s r n d angle = rotation ROT_X s r n d angle"

definition Qubit_rot_Y ::
  "state \<Rightarrow> qref \<Rightarrow> int \<Rightarrow> int \<Rightarrow> (int \<times> int) list option \<Rightarrow> error + state" where
  "Qubit_rot_Y s r n d angle = rotation ROT_Y s r n d angle"

definition Qubit_rot_Z ::
  "state \<Rightarrow> qref \<Rightarrow> int \<Rightarrow> int \<Rightarrow> (int \<times> int) list option \<Rightarrow> error + state" where
  "Qubit_rot_Z s r n d angle = rotation ROT_Z s r n d angle"

definition two_qubit_gate :: "GenericInstr \<Rightarrow> state \<Rightarrow> qref \<Rightarrow> qref \<Rightarrow> error + state" where
  "two_qubit_gate instr s r target =
     Inr (on_builder s (q_conn (qubits s r))
            (add_two_qubit_commands instr (q_qubit_id (qubits s r))
               (q_qubit_id (qubits s target))))"

definition Qubit_cnot :: "state \<Rightarrow> qref \<Rightarrow> qref \<Rightarrow> error + state" where
  "Qubit_cnot s r target = two_qubit_gate CNOT s r target"

definition Qubit_cphase :: "state \<Rightarrow> qref \<Rightarrow> qref \<Rightarrow> error + state" where
  "Qubit_cphase s r target = two_qubit_gate CPHASE s r target"

definition Qubit_reset :: "state \<Rightarrow> qref \<Rightarrow> error + state" where
  "Qubit_reset s r =
     Inr (on_builder s (q_conn (qubits s r))
            (add_init_qubit_commands (q_qubit_id (qubits s r))))"

definition Qubit_free :: "state \<Rightarrow> qref \<Rightarrow> error + state" where
  "Qubit_free s r =
     Inr (on_builder s (q_conn (qubits s r)) (add_qfree_commands (q_qubit_id (qubits s r))))"

section \<open>Sequences of operations on qubit handles\<close>

text \<open>
  A program constructs qubits and calls methods on the handles it holds. A call that raises
  leaves the state as it was when the exception was raised (the only exception of the
  methods below is that of \<open>assert_active\<close>, the first statement of \<open>measure\<close>); the program
  may catch the exception and go on. A method can only be called on an object that exists, with arguments that
  exist: a step that names a reference not yet constructed is not a step of any program and
  changes nothing.
\<close>

datatype qubit_method =
    M_set_active bool
  | M_measure "future option" bool bool
  | M_X | M_Y | M_Z | M_T | M_H | M_K | M_S
  | M_rot_X int int "(int \<times> int) list option"
  | M_rot_Y int int "(int \<times> int) list option"
  | M_rot_Z int int "(int \<times> int) list option"
  | M_cnot qref
  | M_cphase qref
  | M_reset
  | M_free

fun call :: "state \<Rightarrow> qref \<Rightarrow> qubit_method \<Rightarrow> error + state" where
  "call s r (M_set_active v) = Inr (Qubit_set_active s r v)"
| "call s r (M_measure fut inplace store_array) =
     (case Qubit_measure s r fut inplace store_array of
        Inl e \<Rightarrow> Inl e
      | Inr (f, s') \<Rightarrow> Inr s')"
| "call s r M_X = Qubit_X s r"
| "call s r M_Y = Qubit_Y s r"
| "call s r M_Z = Qubit_Z s r"
| "call s r M_T = Qubit_T s r"
| "call s r M_H = Qubit_H s r"
| "call s r M_K = Qubit_K s r"
| "call s r M_S = Qubit_S s r"
| "call s r (M_rot_X n d angle) = Qubit_rot_X s r n d angle"
| "call s r (M_rot_Y n d angle) = Qubit_rot_Y s r n d angle"
| "call s r (M_rot_Z n d angle) = Qubit_rot_Z s r n d angle"
| "call s r (M_cnot target) = Qubit_cnot s r target"
| "call s r (M_cphase target) = Qubit_cphase s r target"
| "call s r M_reset = Qubit_reset s r"
| "call s r M_free = Qubit_free s r"

fun target_exists :: "state \<Rightarrow> qubit_method \<Rightarrow> bool" where
  "target_exists s (M_cnot target) = (target < next_ref s)"
| "target_exists s (M_cphase target) = (target < next_ref s)"
| "target_exists s m = True"

datatype qubit_op =
    Construct conn bool "nat option" "int option"
  | Call qref qubit_method

fun exec_op :: "state \<Rightarrow> qubit_op \<Rightarrow> state" where
  "exec_op s (Construct c add_new_command ent virtual_address) =
     snd (Qubit_init s c add_new_command ent virtual_address)"
| "exec_op s (Call r m) =
     (if r < next_ref s \<and> target_exists s m
      then (case call s r m of Inl e \<Rightarrow> s | Inr s' \<Rightarrow> s')
      else s)"

definition run :: "state \<Rightarrow> qubit_op list \<Rightarrow> state" where
  "run s ops = foldl exec_op s ops"

definition handles_inv :: "state \<Rightarrow> bool" where
  "handles_inv s \<longleftrightarrow>
     (\<forall>c. distinct (active_qubits (builders s c)))
     \<and> (\<forall>c. \<forall>r\<in>set (active_qubits (builders s c)). r < next_ref s)
     \<and> (\<forall>r<next_ref s. q_active (qubits s r) \<longrightarrow> r \<in> set (active_qubits (builder_of s r)))"

section \<open>A concrete run\<close>

text \<open>
  \<open>q = Qubit(conn)\<close> on a fresh connection 0, so that \<open>q\<close> is reference 0, and then
  \<open>m = q.measure()\<close>.
\<close>

definition fresh_qubit_state :: state where
  "fresh_qubit_state = snd (Qubit_init init_state 0 True None None)"

definition measured_state :: state where
  "measured_state =
     (case Qubit_measure fresh_qubit_state 0 None False True of
        Inl e \<Rightarrow> fresh_qubit_state
      | Inr (f, s) \<Rightarrow> s)"

text \<open>The commands appended to the pending pre-subroutine of the handle's builder.\<close>

definition emitted :: "state \<Rightarrow> state \<Rightarrow> qref \<Rightarrow> command list" where
  "emitted s s' r = drop (length (pending (builder_of s r))) (pending (builder_of s' r))"

definition measure_emitted ::
  "state \<Rightarrow> qref \<Rightarrow> future option \<Rightarrow> bool \<Rightarrow> bool \<Rightarrow> command list" where
  "measure_emitted s r fut inplace store_array =
     (case Qubit_measure s r fut inplace store_array of
        Inl e \<Rightarrow> []
      | Inr (f, s') \<Rightarrow> emitted s s' r)"

text \<open>
  The order of claim C3 on the opcodes of a measurement: \<open>MEAS\<close>, then \<open>STORE\<close>, then
  \<open>QFREE\<close> exactly when \<open>inplace\<close> is false.
\<close>

definition claimed_measure_order :: "bool \<Rightarrow> GenericInstr list \<Rightarrow> bool" where
  "claimed_measure_order inplace ops =
     (filter (\<lambda>i. i = MEAS \<or> i = STORE \<or> i = QFREE) ops
        = [MEAS, STORE] @ (if inplace then [] else [QFREE]))"

section \<open>Effects of the operations on the store\<close>

lemma set_builder_simps [simp]:
  "qubits (set_builder s c b) = qubits s"
  "next_ref (set_builder s c b) = next_ref s"
  "builders (set_builder s c b) c' = (if c' = c then b else builders s c')"
  by (simp_all add: set_builder_def)

lemma on_builder_simps [simp]:
  "qubits (on_builder s c f) = qubits s"
  "next_ref (on_builder s c f) = next_ref s"
  "builders (on_builder s c f) c' = (if c' = c then f (builders s c) else builders s c')"
  by (simp_all add: on_builder_def)

lemma set_flag_simps [simp]:
  "q_active (qubits (set_flag s r v) r') = (if r' = r then v else q_active (qubits s r'))"
  "q_conn (qubits (set_flag s r v) r') = q_conn (qubits s r')"
  "q_qubit_id (qubits (set_flag s r v) r') = q_qubit_id (qubits s r')"
  "next_ref (set_flag s r v) = next_ref s"
  "builders (set_flag s r v) = builders s"
  by (simp_all add: set_flag_def)

lemma set_flag_twice [simp]: "set_flag (set_flag s r v) r w = set_flag s r w"
  by (simp add: set_flag_def)

lemma activate_simps [simp]:
  "q_active (qubits (activate s r) r') = (if r' = r then True else q_active (qubits s r'))"
  "q_conn (qubits (activate s r) r') = q_conn (qubits s r')"
  "q_qubit_id (qubits (activate s r) r') = q_qubit_id (qubits s r')"
  "next_ref (activate s r) = next_ref s"
  "active_qubits (builders (activate s r) c) =
     (if c = q_conn (qubits s r) \<and> r \<notin> set (active_qubits (builders s c))
      then active_qubits (builders s c) @ [r] else active_qubits (builders s c))"
  "pending (builders (activate s r) c) = pending (builders s c)"
  by (simp_all add: activate_def builder_of_def Let_def)

lemma deactivate_simps [simp]:
  "q_active (qubits (deactivate s r) r') = (if r' = r then False else q_active (qubits s r'))"
  "q_conn (qubits (deactivate s r) r') = q_conn (qubits s r')"
  "q_qubit_id (qubits (deactivate s r) r') = q_qubit_id (qubits s r')"
  "next_ref (deactivate s r) = next_ref s"
  "active_qubits (builders (deactivate s r) c) =
     (if c = q_conn (qubits s r) then remove1 r (active_qubits (builders s c))
      else active_qubits (builders s c))"
  "pending (builders (deactivate s r) c) = pending (builders s c)"
  by (simp_all add: deactivate_def builder_of_def Let_def remove1_idem)

lemma Qubit_set_active_simps:
  "q_active (qubits (Qubit_set_active s r v) r') = (if r' = r then v else q_active (qubits s r'))"
  "q_conn (qubits (Qubit_set_active s r v) r') = q_conn (qubits s r')"
  "q_qubit_id (qubits (Qubit_set_active s r v) r') = q_qubit_id (qubits s r')"
  "next_ref (Qubit_set_active s r v) = next_ref s"
  "pending (builders (Qubit_set_active s r v) c) = pending (builders s c)"
  by (auto simp: Qubit_set_active_def Let_def)

lemma Qubit_set_active_list:
  "active_qubits (builders (Qubit_set_active s r v) c) =
     (if q_active (qubits s r) = v \<or> c \<noteq> q_conn (qubits s r) then active_qubits (builders s c)
      else if v then (if r \<in> set (active_qubits (builders s c)) then active_qubits (builders s c)
                      else active_qubits (builders s c) @ [r])
      else remove1 r (active_qubits (builders s c)))"
  by (auto simp: Qubit_set_active_def Let_def)

lemma builder_active_qubits [simp]:
  "active_qubits (emit cmds b) = active_qubits b"
  "active_qubits (snd (new_qubit_id b)) = active_qubits b"
  "active_qubits (snd (new_register role b)) = active_qubits b"
  "active_qubits (add_new_qubit_commands qid b) = active_qubits b"
  "active_qubits (add_single_qubit_commands instr qid b) = active_qubits b"
  "active_qubits (add_two_qubit_commands instr qc qt b) = active_qubits b"
  "active_qubits (add_single_qubit_rotation_commands instr qid n d angle b) = active_qubits b"
  "active_qubits (add_measure_commands qid fut inplace b) = active_qubits b"
  "active_qubits (add_init_qubit_commands qid b) = active_qubits b"
  "active_qubits (add_qfree_commands qid b) = active_qubits b"
  "active_qubits (snd (new_array len b)) = active_qubits b"
  "active_qubits (snd (RegFuture_init b)) = active_qubits b"
  by (simp_all add: emit_def new_qubit_id_def new_register_def add_new_qubit_commands_def
      add_single_qubit_commands_def add_two_qubit_commands_def
      add_single_qubit_rotation_commands_def add_measure_commands_def
      add_init_qubit_commands_def add_qfree_commands_def new_array_def RegFuture_init_def
      Let_def split: option.splits prod.splits)

lemma handles_inv_on_builder:
  "active_qubits (f (builders s c)) = active_qubits (builders s c) \<Longrightarrow>
     handles_inv (on_builder s c f) = handles_inv s"
  by (auto simp: handles_inv_def builder_of_def)

lemma handles_inv_set_builder:
  "active_qubits b = active_qubits (builders s c) \<Longrightarrow>
     handles_inv (set_builder s c b) = handles_inv s"
  by (auto simp: handles_inv_def builder_of_def)

lemma handles_inv_set_active:
  assumes "handles_inv s" "r < next_ref s"
  shows "handles_inv (Qubit_set_active s r v)"
  using assms unfolding handles_inv_def builder_of_def
  by (auto simp: Qubit_set_active_simps Qubit_set_active_list)

lemma new_array_active_qubits:
  "new_array len b = (arr, b1) \<Longrightarrow> active_qubits b1 = active_qubits b"
  by (auto simp: new_array_def Let_def emit_def)

lemma RegFuture_init_active_qubits:
  "RegFuture_init b = (f, b1) \<Longrightarrow> active_qubits b1 = active_qubits b"
  by (auto simp: RegFuture_init_def new_register_def Let_def)

lemma new_qubit_id_active_qubits:
  "new_qubit_id b = (i, b1) \<Longrightarrow> active_qubits b1 = active_qubits b"
  by (auto simp: new_qubit_id_def)

lemma measure_lowering_frame:
  assumes "measure_lowering s r fut inplace store_array = (f, s2)"
  shows "qubits s2 = qubits s" "next_ref s2 = next_ref s"
    "active_qubits (builders s2 c) = active_qubits (builders s c)"
  using assms
  by (auto simp: measure_lowering_def Let_def split: option.splits prod.splits if_splits
      dest: new_array_active_qubits RegFuture_init_active_qubits)


lemma measure_lowering_inv:
  assumes "measure_lowering s r fut inplace store_array = (f, s2)"
  shows "handles_inv s2 = handles_inv s"
  using measure_lowering_frame [OF assms]
  by (simp add: handles_inv_def builder_of_def)

lemma Qubit_init_frame:
  assumes "Qubit_init s c add_new_command ent virtual_address = (r, s')"
  shows "r = next_ref s" "next_ref s' = Suc (next_ref s)"
    "q_active (qubits s' r') = (if r' = r then True else q_active (qubits s r'))"
    "q_conn (qubits s' r') = (if r' = r then c else q_conn (qubits s r'))"
    "active_qubits (builders s' c') =
       (if c' = c \<and> r \<notin> set (active_qubits (builders s c))
        then active_qubits (builders s c) @ [r] else active_qubits (builders s c'))"
  using assms
  by (auto simp: Qubit_init_def Let_def split: option.splits prod.splits if_splits
      dest: new_qubit_id_active_qubits)

lemma handles_inv_init:
  assumes "handles_inv s" "Qubit_init s c add_new_command ent virtual_address = (r, s')"
  shows "handles_inv s'"
  using assms(1) unfolding handles_inv_def builder_of_def Qubit_init_frame [OF assms(2)]
  by (auto simp: less_Suc_eq)

lemma handles_inv_call:
  assumes "handles_inv s" "r < next_ref s" "call s r m = Inr s'"
  shows "handles_inv s'"
proof (cases m)
  case (M_set_active v)
  with assms show ?thesis by (auto intro: handles_inv_set_active)
next
  case (M_measure fut inplace store_array)
  obtain f s2 where l: "measure_lowering s r fut inplace store_array = (f, s2)"
    by (cases "measure_lowering s r fut inplace store_array")
  have i2: "handles_inv s2" using measure_lowering_inv [OF l] assms(1) by simp
  have r2: "r < next_ref s2" using measure_lowering_frame(2) [OF l] assms(2) by simp
  from assms(3) M_measure l have "s' = (if \<not> inplace then Qubit_set_active s2 r False else s2)"
    by (auto simp: Qubit_measure_def Let_def split: sum.splits)
  with i2 r2 show ?thesis by (simp add: handles_inv_set_active)
qed (use assms in \<open>auto simp: Qubit_X_def Qubit_Y_def Qubit_Z_def Qubit_T_def Qubit_H_def
      Qubit_K_def Qubit_S_def single_qubit_gate_def Qubit_rot_X_def Qubit_rot_Y_def
      Qubit_rot_Z_def rotation_def Qubit_cnot_def Qubit_cphase_def two_qubit_gate_def
      Qubit_reset_def Qubit_free_def handles_inv_on_builder\<close>)

lemma handles_inv_exec_op: "handles_inv s \<Longrightarrow> handles_inv (exec_op s op)"
proof (cases op)
  case (Construct c anc ent va)
  assume "handles_inv s"
  then show ?thesis using Construct
    by (cases "Qubit_init s c anc ent va") (auto dest: handles_inv_init)
next
  case (Call r m)
  assume "handles_inv s"
  then show ?thesis using Call
    by (auto split: sum.splits dest: handles_inv_call)
qed

lemma handles_inv_run: "handles_inv s \<Longrightarrow> handles_inv (run s ops)"
  unfolding run_def by (induction ops arbitrary: s) (auto simp: handles_inv_exec_op)

lemma handles_inv_init_state: "handles_inv init_state"
  by (simp add: handles_inv_def init_state_def empty_builder_def)

lemma distinct_count_list_one:
  "distinct xs \<Longrightarrow> x \<in> set xs \<Longrightarrow> count_list xs x = 1"
  by (induction xs) auto

lemma handles_inv_count:
  assumes "handles_inv s" "r < next_ref s" "q_active (qubits s r)"
  shows "count_list (active_qubits (builder_of s r)) r = 1"
proof -
  from assms have "distinct (active_qubits (builder_of s r))"
    and "r \<in> set (active_qubits (builder_of s r))"
    by (auto simp: handles_inv_def builder_of_def)
  then show ?thesis by (rule distinct_count_list_one)
qed

lemma opcodes_append [simp]: "opcodes (xs @ ys) = opcodes xs @ opcodes ys"
  by (induction xs rule: opcodes.induct) auto

lemma fresh_qubit_state_simps:
  "next_ref fresh_qubit_state = 1"
  "q_active (qubits fresh_qubit_state 0) = True"
  "q_conn (qubits fresh_qubit_state 0) = 0"
  "q_qubit_id (qubits fresh_qubit_state 0) = 0"
  "active_qubits (builders fresh_qubit_state 0) = [0]"
  "opcodes (pending (builders fresh_qubit_state 0)) = [QALLOC, INIT, SET]"
  by (simp_all add: fresh_qubit_state_def Qubit_init_def init_state_def empty_builder_def
      new_qubit_id_def add_new_qubit_commands_def emit_def Let_def)

lemma measured_state_simps:
  "next_ref measured_state = 1"
  "q_active (qubits measured_state 0) = False"
  "q_conn (qubits measured_state 0) = 0"
  "q_qubit_id (qubits measured_state 0) = 0"
  "active_qubits (builders measured_state 0) = []"
  "opcodes (pending (builders measured_state 0)) = [QALLOC, INIT, SET, ARRAY, MEAS, QFREE, STORE]"
  by (simp_all add: measured_state_def Qubit_measure_def assert_active_def measure_lowering_def
      fresh_qubit_state_simps Qubit_set_active_simps Qubit_set_active_list
      new_array_def get_future_index_def add_measure_commands_def new_register_def emit_def
      store_commands_def Let_def)

section \<open>The order of a measurement's instructions\<close>

text \<open>
  The pattern asserted by \<open>test_futures\<close> on the pre-subroutine of
  \<open>q = Qubit(conn); m = q.measure(); with m.if_ne(0): ...; with m.if_ez(): ...\<close>.
\<close>

definition test_futures_pattern :: "pattern_elem list" where
  "test_futures_pattern =
     [Instr MEAS, Instr QFREE, Instr STORE, Instr LOAD, Instr BEQ,
      Wild ANY_ZERO_OR_MORE, Wild BRANCH_LABEL, Instr LOAD, Instr BNZ,
      Wild ANY_ZERO_OR_MORE, Wild BRANCH_LABEL]"

text \<open>
  The lowering in the order of claim C3 and of the sentence of section 4.2: \<open>MEAS\<close>, then
  \<open>STORE\<close>, then \<open>QFREE\<close> unless \<open>inplace\<close>. For comparison only.
\<close>

definition add_measure_commands_as_claimed :: "int \<Rightarrow> future \<Rightarrow> bool \<Rightarrow> Builder \<Rightarrow> Builder" where
  "add_measure_commands_as_claimed qid fut inplace b =
     (let (out, b1) = new_register RoleR b
      in emit ([ICmd MEAS [Reg RoleQ qid, Reg RoleR out]]
               @ store_commands (Reg RoleR out) fut
               @ (if inplace then [] else [ICmd QFREE [Reg RoleQ qid]])) b1)"

text \<open>
  Modelled from the spec: the two \<open>with\<close> blocks of \<open>test_futures\<close> (\<open>if_ne\<close>,
  \<open>if_ez\<close> of the futures, not among the sources), after section 4.3: the future is
  loaded into a fresh register, the inverse branch jumps to a fresh exit label past the body,
  the body allocates a qubit, and the label closes the block.
\<close>

definition test_futures_if_blocks :: "command list" where
  "test_futures_if_blocks =
     [ICmd LOAD [Reg RoleR 1, ArrayEntry 0 (Imm 0)],
      ICmd BEQ [Reg RoleR 1, Imm 0, LabelRef ''IF_EXIT0''],
      ICmd QALLOC [Reg RoleQ 1], ICmd INIT [Reg RoleQ 1], ICmd SET [Reg RoleQ 1, Imm 1],
      BranchLabel ''IF_EXIT0'',
      ICmd LOAD [Reg RoleR 2, ArrayEntry 0 (Imm 0)],
      ICmd BNZ [Reg RoleR 2, LabelRef ''IF_EXIT1''],
      ICmd QALLOC [Reg RoleQ 2], ICmd INIT [Reg RoleQ 2], ICmd SET [Reg RoleQ 2, Imm 2],
      BranchLabel ''IF_EXIT1'']"

text \<open>
  The pre-subroutine of the program of \<open>test_futures\<close>, for a given lowering of the
  measurement by the builder.
\<close>

definition test_futures_commands ::
  "(int \<Rightarrow> future \<Rightarrow> bool \<Rightarrow> Builder \<Rightarrow> Builder) \<Rightarrow> command list" where
  "test_futures_commands emit_measure =
     (case Qubit_measure_with (builder_lowering emit_measure) fresh_qubit_state 0 None False True of
        Inl e \<Rightarrow> []
      | Inr (m, s) \<Rightarrow> pending (builders s 0) @ test_futures_if_blocks)"

text \<open>
  Whatever the builder emits, the test can only pass on a pre-subroutine in which an
  \<open>MEAS\<close> is directly followed by a \<open>QFREE\<close> and that by a \<open>STORE\<close>: a \<open>True\<close> of the
  matcher is a match at some offset, and the pattern starts with these three literals. A
  pre-subroutine with a single \<open>MEAS\<close> that is followed by anything but a \<open>QFREE\<close> is
  rejected.
\<close>

lemma spec_match_here_three:
  assumes "spec_match_here (Instr a # Instr b # Instr c # ps) cs"
  shows "\<exists>oa ob oc rest. cs = ICmd a oa # ICmd b ob # ICmd c oc # rest"
proof -
  from assms obtain c1 cs1 where 1: "cs = c1 # cs1" by (cases cs) auto
  with assms have m1: "elem_matches (Instr a) c1" "spec_match_here (Instr b # Instr c # ps) cs1"
    by auto
  then obtain c2 cs2 where 2: "cs1 = c2 # cs2" by (cases cs1) auto
  with m1 have m2: "elem_matches (Instr b) c2" "spec_match_here (Instr c # ps) cs2" by auto
  then obtain c3 cs3 where 3: "cs2 = c3 # cs3" by (cases cs2) auto
  with m2 have m3: "elem_matches (Instr c) c3" by auto
  from m1(1) obtain oa where "c1 = ICmd a oa" by (cases c1) auto
  moreover from m2(1) obtain ob where "c2 = ICmd b ob" by (cases c2) auto
  moreover from m3 obtain oc where "c3 = ICmd c oc" by (cases c3) auto
  ultimately show ?thesis using 1 2 3 by blast
qed

lemma test_futures_needs_qfree_before_store:
  assumes "match_pattern subroutine test_futures_pattern = Inr True"
  shows "\<exists>before oa ob oc rest.
           commands subroutine = before @ ICmd MEAS oa # ICmd QFREE ob # ICmd STORE oc # rest"
proof -
  from assms have "spec_match test_futures_pattern (commands subroutine)"
    by (simp add: match_pattern_def PatternMatcher_match_sound)
  then obtain k where "spec_match_here test_futures_pattern (drop k (commands subroutine))"
    by (auto simp: spec_match_iff)
  then obtain oa ob oc rest where
    "drop k (commands subroutine) = ICmd MEAS oa # ICmd QFREE ob # ICmd STORE oc # rest"
    unfolding test_futures_pattern_def by (blast dest: spec_match_here_three)
  then have "commands subroutine
      = take k (commands subroutine) @ ICmd MEAS oa # ICmd QFREE ob # ICmd STORE oc # rest"
    by (metis append_take_drop_id)
  then show ?thesis by blast
qed

lemma fresh_qubit_state_builder:
  "pending (builders fresh_qubit_state 0)
     = [ICmd QALLOC [Reg RoleQ 0], ICmd INIT [Reg RoleQ 0], ICmd SET [Reg RoleQ 0, Imm 0]]"
  "next_array_address (builders fresh_qubit_state 0) = 0"
  "next_reg_index (builders fresh_qubit_state 0) RoleR = 0"
  by (simp_all add: fresh_qubit_state_def Qubit_init_def init_state_def empty_builder_def
      new_qubit_id_def add_new_qubit_commands_def emit_def Let_def activate_def
      builder_of_def set_flag_def on_builder_def set_builder_def)

lemma test_futures_commands_claimed:
  "test_futures_commands add_measure_commands_as_claimed =
     [ICmd QALLOC [Reg RoleQ 0], ICmd INIT [Reg RoleQ 0], ICmd SET [Reg RoleQ 0, Imm 0],
      ICmd ARRAY [Imm 1, ArrayHandle 0],
      ICmd MEAS [Reg RoleQ 0, Reg RoleR 0],
      ICmd STORE [Reg RoleR 0, ArrayEntry 0 (Imm 0)],
      ICmd QFREE [Reg RoleQ 0]] @ test_futures_if_blocks"
  by (simp add: test_futures_commands_def Qubit_measure_with_def builder_lowering_def
      assert_active_def choose_future_def fresh_qubit_state_simps fresh_qubit_state_builder
      new_array_def get_future_index_def add_measure_commands_as_claimed_def new_register_def
      emit_def store_commands_def Let_def Qubit_set_active_simps)

lemma test_futures_commands_code:
  "test_futures_commands add_measure_commands =
     [ICmd QALLOC [Reg RoleQ 0], ICmd INIT [Reg RoleQ 0], ICmd SET [Reg RoleQ 0, Imm 0],
      ICmd ARRAY [Imm 1, ArrayHandle 0],
      ICmd MEAS [Reg RoleQ 0, Reg RoleR 0],
      ICmd QFREE [Reg RoleQ 0],
      ICmd STORE [Reg RoleR 0, ArrayEntry 0 (Imm 0)]] @ test_futures_if_blocks"
  by (simp add: test_futures_commands_def Qubit_measure_with_def builder_lowering_def
      assert_active_def choose_future_def fresh_qubit_state_simps fresh_qubit_state_builder
      new_array_def get_future_index_def add_measure_commands_def new_register_def
      emit_def store_commands_def Let_def Qubit_set_active_simps)

lemma claimed_rejected:
  "match_pattern \<lparr>commands =
     [ICmd QALLOC [Reg RoleQ 0], ICmd INIT [Reg RoleQ 0], ICmd SET [Reg RoleQ 0, Imm 0],
      ICmd ARRAY [Imm 1, ArrayHandle 0],
      ICmd MEAS [Reg RoleQ 0, Reg RoleR 0],
      ICmd STORE [Reg RoleR 0, ArrayEntry 0 (Imm 0)],
      ICmd QFREE [Reg RoleQ 0]] @ test_futures_if_blocks\<rparr> test_futures_pattern = Inr False"
  by code_simp

lemma code_accepted:
  "match_pattern \<lparr>commands =
     [ICmd QALLOC [Reg RoleQ 0], ICmd INIT [Reg RoleQ 0], ICmd SET [Reg RoleQ 0, Imm 0],
      ICmd ARRAY [Imm 1, ArrayHandle 0],
      ICmd MEAS [Reg RoleQ 0, Reg RoleR 0],
      ICmd QFREE [Reg RoleQ 0],
      ICmd STORE [Reg RoleR 0, ArrayEntry 0 (Imm 0)]] @ test_futures_if_blocks\<rparr> test_futures_pattern = Inr True"
  by code_simp

lemma meas_in_opcodes: "ICmd MEAS a \<in> set xs \<Longrightarrow> MEAS \<in> set (opcodes xs)"
  by (induction xs rule: opcodes.induct) auto

lemma opcodes_tail: "i \<notin> set (opcodes (x # xs)) \<Longrightarrow> i \<notin> set (opcodes xs)"
  by (cases x) auto

lemma meas_position:
  "xs @ ICmd MEAS a # ys = xs' @ ICmd MEAS a' # ys' \<Longrightarrow> MEAS \<notin> set (opcodes xs) \<Longrightarrow>
     MEAS \<notin> set (opcodes ys) \<Longrightarrow> xs = xs' \<and> ys = ys'"
proof (induction xs arbitrary: xs')
  case Nil
  then show ?case by (cases xs') (auto dest: meas_in_opcodes)
next
  case (Cons x xs)
  from Cons.prems(2) have tl: "MEAS \<notin> set (opcodes xs)" by (rule opcodes_tail)
  show ?case
  proof (cases xs')
    case Nil
    with Cons.prems show ?thesis by auto
  next
    case (Cons x' xs'')
    with Cons.prems(1) have "x = x'" "xs @ ICmd MEAS a # ys = xs'' @ ICmd MEAS a' # ys'"
      by auto
    with Cons.IH [OF this(2) tl Cons.prems(3)] Cons show ?thesis by simp
  qed
qed

lemma test_futures_rejects:
  assumes "commands subroutine = before @ ICmd MEAS oa # c # rest"
    "MEAS \<notin> set (opcodes before)" "MEAS \<notin> set (opcodes (c # rest))" "opcodes [c] \<noteq> [QFREE]"
  shows "match_pattern subroutine test_futures_pattern \<noteq> Inr True"
proof
  assume "match_pattern subroutine test_futures_pattern = Inr True"
  from test_futures_needs_qfree_before_store [OF this] obtain b' oa' ob oc r' where
    "commands subroutine = b' @ ICmd MEAS oa' # ICmd QFREE ob # ICmd STORE oc # r'" by blast
  with assms(1) have "before @ ICmd MEAS oa # (c # rest)
      = b' @ ICmd MEAS oa' # (ICmd QFREE ob # ICmd STORE oc # r')" by simp
  from meas_position [OF this assms(2,3)] have "c = ICmd QFREE ob" by simp
  with assms(4) show False by simp
qed

lemma opcodes_store_commands [simp]: "opcodes (store_commands src f) = [STORE]"
  by (simp add: store_commands_def split: future.splits)

lemma measure_lowering_pending:
  assumes "measure_lowering s r fut inplace store_array = (f, s2)"
  shows "\<exists>new. pending (builder_of s2 r) = pending (builder_of s r) @ new
           \<and> opcodes new = (if fut = None \<and> store_array then [ARRAY] else [])
                 @ [MEAS] @ (if inplace then [] else [QFREE]) @ [STORE]"
  using assms
  by (auto simp: measure_lowering_def builder_of_def new_array_def RegFuture_init_def
      new_register_def add_measure_commands_def emit_def get_future_index_def Let_def
      split: option.splits prod.splits if_splits)

lemma measure_lowering_emitted:
  assumes "measure_lowering s r fut inplace store_array = (f, s2)"
  shows "opcodes (emitted s s2 r) = (if fut = None \<and> store_array then [ARRAY] else [])
           @ [MEAS] @ (if inplace then [] else [QFREE]) @ [STORE]"
proof -
  from measure_lowering_pending [OF assms] obtain new where
    "pending (builder_of s2 r) = pending (builder_of s r) @ new"
    "opcodes new = (if fut = None \<and> store_array then [ARRAY] else [])
                 @ [MEAS] @ (if inplace then [] else [QFREE]) @ [STORE]" by blast
  then show ?thesis by (simp add: emitted_def)
qed

lemma emitted_set_active [simp]: "emitted s (Qubit_set_active s2 r v) r = emitted s s2 r"
  by (simp add: emitted_def builder_of_def Qubit_set_active_simps)

lemma choose_future_frame:
  assumes "choose_future s r fut store_array = (f, s1)"
  shows "qubits s1 = qubits s" "next_ref s1 = next_ref s"
    "active_qubits (builders s1 c) = active_qubits (builders s c)"
  using assms
  by (auto simp: choose_future_def Let_def split: option.splits prod.splits if_splits
      dest: new_array_active_qubits RegFuture_init_active_qubits)

lemma measure_lowering_choose:
  "measure_lowering s r fut inplace store_array =
     (case choose_future s r fut store_array of
        (f, s1) \<Rightarrow> (f, on_builder s1 (q_conn (qubits s r))
                        (add_measure_commands (q_qubit_id (qubits s r)) f inplace)))"
  by (simp add: measure_lowering_def choose_future_def Let_def
      split: option.splits prod.splits)

lemma Qubit_measure_with_builder:
  "Qubit_measure s r fut inplace store_array
     = Qubit_measure_with (builder_lowering add_measure_commands) s r fut inplace store_array"
proof (cases "choose_future s r fut store_array")
  case (Pair f s1)
  note fr = choose_future_frame [OF Pair]
  show ?thesis
    by (simp add: Qubit_measure_def Qubit_measure_with_def measure_lowering_choose Pair
        builder_lowering_def fr split: sum.splits)
qed

lemma Qubit_measure_with_order:
  assumes "q_active (qubits s r)" "choose_future s r fut store_array = (f, s1)"
  shows "Qubit_measure_with amc s r fut inplace store_array =
           (case amc s1 (q_conn (qubits s r)) (q_qubit_id (qubits s r)) f inplace of
              Inl e \<Rightarrow> Inl e
            | Inr s2 \<Rightarrow> Inr (f, if inplace then s2 else Qubit_set_active s2 r False))"
  using assms choose_future_frame(1) [OF assms(2)]
  by (simp add: Qubit_measure_with_def assert_active_def split: sum.splits)

lemma measure_orders_differ:
  "Qubit_measure_early checking_lowering fresh_qubit_state 0 None False True = Inl AssertionError
   \<and> (\<exists>f s'. Qubit_measure_with checking_lowering fresh_qubit_state 0 None False True = Inr (f, s')
         \<and> \<not> q_active (qubits s' 0) \<and> 0 \<notin> set (active_qubits (builder_of s' 0)))"
  by (simp add: Qubit_measure_early_def Qubit_measure_with_def checking_lowering_def
      assert_active_def choose_future_def fresh_qubit_state_simps new_array_def
      get_future_index_def emit_def Let_def Qubit_set_active_simps Qubit_set_active_list
      builder_of_def)

text \<open>
  Claim C3 as stated fails on the destructive measurement \<open>q.measure()\<close> of a fresh qubit,
  the call of \<open>test_futures\<close>. With the claimed order \<open>MEAS, STORE, QFREE\<close> the
  pre-subroutine of the test program is rejected by the assertion of the test; with the
  \<open>QFREE\<close> before the \<open>STORE\<close> it is accepted, and this is the order of the model.
\<close>

theorem measure_store_not_before_qfree:
  "q_active (qubits fresh_qubit_state 0)
   \<and> opcodes (measure_emitted fresh_qubit_state 0 None False True) = [ARRAY, MEAS, QFREE, STORE]
   \<and> \<not> claimed_measure_order False
         (opcodes (measure_emitted fresh_qubit_state 0 None False True))
   \<and> opcodes (test_futures_commands add_measure_commands_as_claimed)
       = [QALLOC, INIT, SET, ARRAY, MEAS, STORE, QFREE,
          LOAD, BEQ, QALLOC, INIT, SET, LOAD, BNZ, QALLOC, INIT, SET]
   \<and> match_pattern \<lparr>commands = test_futures_commands add_measure_commands_as_claimed\<rparr>
         test_futures_pattern = Inr False
   \<and> opcodes (test_futures_commands add_measure_commands)
       = [QALLOC, INIT, SET, ARRAY, MEAS, QFREE, STORE,
          LOAD, BEQ, QALLOC, INIT, SET, LOAD, BNZ, QALLOC, INIT, SET]
   \<and> match_pattern \<lparr>commands = test_futures_commands add_measure_commands\<rparr>
         test_futures_pattern = Inr True"
proof -
  have 1: "q_active (qubits fresh_qubit_state 0)
   \<and> opcodes (measure_emitted fresh_qubit_state 0 None False True) = [ARRAY, MEAS, QFREE, STORE]
   \<and> \<not> claimed_measure_order False
         (opcodes (measure_emitted fresh_qubit_state 0 None False True))"
    by (simp add: measure_emitted_def emitted_def builder_of_def Qubit_measure_def
      assert_active_def measure_lowering_def fresh_qubit_state_simps Qubit_set_active_simps
      Qubit_set_active_list claimed_measure_order_def new_array_def get_future_index_def
      add_measure_commands_def new_register_def emit_def store_commands_def Let_def)
  have 2: "opcodes (test_futures_commands add_measure_commands_as_claimed)
       = [QALLOC, INIT, SET, ARRAY, MEAS, STORE, QFREE,
          LOAD, BEQ, QALLOC, INIT, SET, LOAD, BNZ, QALLOC, INIT, SET]"
    by (simp add: test_futures_commands_claimed test_futures_if_blocks_def)
  have 3: "match_pattern \<lparr>commands = test_futures_commands add_measure_commands_as_claimed\<rparr>
         test_futures_pattern = Inr False"
    unfolding test_futures_commands_claimed by (rule claimed_rejected)
  have 4: "opcodes (test_futures_commands add_measure_commands)
       = [QALLOC, INIT, SET, ARRAY, MEAS, QFREE, STORE,
          LOAD, BEQ, QALLOC, INIT, SET, LOAD, BNZ, QALLOC, INIT, SET]"
    by (simp add: test_futures_commands_code test_futures_if_blocks_def)
  have 5: "match_pattern \<lparr>commands = test_futures_commands add_measure_commands\<rparr>
         test_futures_pattern = Inr True"
    unfolding test_futures_commands_code by (rule code_accepted)
  from 1 [THEN conjunct1] 1 [THEN conjunct2, THEN conjunct1] 1 [THEN conjunct2, THEN conjunct2]
    2 3 4 5
  show ?thesis by (intro conjI)
qed

text \<open>
  Claim C3, amended. For every active qubit, the destructive measurement with default
  arguments \<open>q.measure()\<close>, the call that \<open>test_futures\<close> exercises, returns the future of
  cell 0 of a new outcome array and emits, after the \<open>ARRAY\<close> of that array and in this
  order, the \<open>MEAS\<close> of the qubit into the outcome register, the \<open>QFREE\<close> of the qubit, and
  the \<open>STORE\<close> of the outcome register into the cell of the future. The test of the
  repository accepts a pre-subroutine only if an \<open>MEAS\<close> in it is directly followed by a
  \<open>QFREE\<close> and then a \<open>STORE\<close>, and rejects one whose single \<open>MEAS\<close> is followed by
  anything else.
\<close>

theorem measure_emits_meas_qfree_store:
  assumes "q_active (qubits s r)"
  shows "(\<exists>s'. Qubit_measure s r None False True
              = Inr (ArrayFuture \<lparr>address = next_array_address (builder_of s r),
                                   array_length = 1\<rparr> (Imm 0), s'))
     \<and> measure_emitted s r None False True
         = [ICmd ARRAY [Imm 1, ArrayHandle (next_array_address (builder_of s r))],
            ICmd MEAS [Reg RoleQ (q_qubit_id (qubits s r)),
                       Reg RoleR (next_reg_index (builder_of s r) RoleR)],
            ICmd QFREE [Reg RoleQ (q_qubit_id (qubits s r))],
            ICmd STORE [Reg RoleR (next_reg_index (builder_of s r) RoleR),
                        ArrayEntry (next_array_address (builder_of s r)) (Imm 0)]]
     \<and> (match_pattern subroutine test_futures_pattern = Inr True \<longrightarrow>
          (\<exists>before oa ob oc rest.
             commands subroutine
               = before @ ICmd MEAS oa # ICmd QFREE ob # ICmd STORE oc # rest))
     \<and> (commands subroutine = before @ ICmd MEAS oa # c # rest
          \<and> MEAS \<notin> set (opcodes before) \<and> MEAS \<notin> set (opcodes (c # rest))
          \<and> opcodes [c] \<noteq> [QFREE] \<longrightarrow>
          match_pattern subroutine test_futures_pattern \<noteq> Inr True)"
proof (intro conjI impI)
  show "\<exists>s'. Qubit_measure s r None False True
              = Inr (ArrayFuture \<lparr>address = next_array_address (builder_of s r),
                                   array_length = 1\<rparr> (Imm 0), s')"
    using assms
    by (simp add: Qubit_measure_def assert_active_def measure_lowering_def new_array_def
        get_future_index_def builder_of_def Let_def)
next
  show "measure_emitted s r None False True
         = [ICmd ARRAY [Imm 1, ArrayHandle (next_array_address (builder_of s r))],
            ICmd MEAS [Reg RoleQ (q_qubit_id (qubits s r)),
                       Reg RoleR (next_reg_index (builder_of s r) RoleR)],
            ICmd QFREE [Reg RoleQ (q_qubit_id (qubits s r))],
            ICmd STORE [Reg RoleR (next_reg_index (builder_of s r) RoleR),
                        ArrayEntry (next_array_address (builder_of s r)) (Imm 0)]]"
    using assms
    by (simp add: measure_emitted_def emitted_def Qubit_measure_def assert_active_def
        measure_lowering_def new_array_def get_future_index_def add_measure_commands_def
        new_register_def emit_def store_commands_def builder_of_def Let_def
        Qubit_set_active_simps)
next
  assume "match_pattern subroutine test_futures_pattern = Inr True"
  then show "\<exists>before oa ob oc rest.
      commands subroutine = before @ ICmd MEAS oa # ICmd QFREE ob # ICmd STORE oc # rest"
    by (rule test_futures_needs_qfree_before_store)
next
  assume "commands subroutine = before @ ICmd MEAS oa # c # rest
          \<and> MEAS \<notin> set (opcodes before) \<and> MEAS \<notin> set (opcodes (c # rest))
          \<and> opcodes [c] \<noteq> [QFREE]"
  then show "match_pattern subroutine test_futures_pattern \<noteq> Inr True"
    by (intro test_futures_rejects) blast+
qed

theorem measure_emits_meas_qfree_store_witness:
  "q_active (qubits fresh_qubit_state 0)
   \<and> (\<exists>s'. Qubit_measure fresh_qubit_state 0 None False True
              = Inr (ArrayFuture \<lparr>address = 0, array_length = 1\<rparr> (Imm 0), s'))
   \<and> measure_emitted fresh_qubit_state 0 None False True
       = [ICmd ARRAY [Imm 1, ArrayHandle 0], ICmd MEAS [Reg RoleQ 0, Reg RoleR 0],
          ICmd QFREE [Reg RoleQ 0], ICmd STORE [Reg RoleR 0, ArrayEntry 0 (Imm 0)]]
   \<and> match_pattern \<lparr>commands = test_futures_commands add_measure_commands\<rparr>
         test_futures_pattern = Inr True
   \<and> (\<exists>before oa ob oc rest.
         commands \<lparr>commands = test_futures_commands add_measure_commands\<rparr>
           = before @ ICmd MEAS oa # ICmd QFREE ob # ICmd STORE oc # rest)
   \<and> MEAS \<notin> set (opcodes [ICmd QALLOC [Reg RoleQ 0]])
   \<and> MEAS \<notin> set (opcodes [ICmd STORE [Reg RoleR 0, ArrayEntry 0 (Imm 0)], ICmd QFREE [Reg RoleQ 0]])
   \<and> opcodes [ICmd STORE [Reg RoleR 0, ArrayEntry 0 (Imm 0)]] \<noteq> [QFREE]
   \<and> match_pattern
         \<lparr>commands = [ICmd QALLOC [Reg RoleQ 0]] @ ICmd MEAS [Reg RoleQ 0, Reg RoleR 0]
             # ICmd STORE [Reg RoleR 0, ArrayEntry 0 (Imm 0)] # [ICmd QFREE [Reg RoleQ 0]]\<rparr>
         test_futures_pattern \<noteq> Inr True"
proof -
  have a: "q_active (qubits fresh_qubit_state 0)" by (simp add: fresh_qubit_state_simps)
  have m: "match_pattern \<lparr>commands = test_futures_commands add_measure_commands\<rparr>
         test_futures_pattern = Inr True"
    unfolding test_futures_commands_code by (rule code_accepted)
  note t = measure_emits_meas_qfree_store [OF a,
      of "\<lparr>commands = test_futures_commands add_measure_commands\<rparr>"]
  note u = measure_emits_meas_qfree_store [OF a,
      of "\<lparr>commands = [ICmd QALLOC [Reg RoleQ 0]] @ ICmd MEAS [Reg RoleQ 0, Reg RoleR 0]
             # ICmd STORE [Reg RoleR 0, ArrayEntry 0 (Imm 0)] # [ICmd QFREE [Reg RoleQ 0]]\<rparr>"
         "[ICmd QALLOC [Reg RoleQ 0]]" "[Reg RoleQ 0, Reg RoleR 0]"
         "ICmd STORE [Reg RoleR 0, ArrayEntry 0 (Imm 0)]" "[ICmd QFREE [Reg RoleQ 0]]"]
  from t [THEN conjunct1] have 1: "\<exists>s'. Qubit_measure fresh_qubit_state 0 None False True
              = Inr (ArrayFuture \<lparr>address = 0, array_length = 1\<rparr> (Imm 0), s')"
    by (simp add: builder_of_def fresh_qubit_state_simps fresh_qubit_state_builder)
  from t [THEN conjunct2, THEN conjunct1]
  have 2: "measure_emitted fresh_qubit_state 0 None False True
       = [ICmd ARRAY [Imm 1, ArrayHandle 0], ICmd MEAS [Reg RoleQ 0, Reg RoleR 0],
          ICmd QFREE [Reg RoleQ 0], ICmd STORE [Reg RoleR 0, ArrayEntry 0 (Imm 0)]]"
    by (simp add: builder_of_def fresh_qubit_state_simps fresh_qubit_state_builder)
  from t [THEN conjunct2, THEN conjunct2, THEN conjunct1] m
  have 3: "\<exists>before oa ob oc rest.
         commands \<lparr>commands = test_futures_commands add_measure_commands\<rparr>
           = before @ ICmd MEAS oa # ICmd QFREE ob # ICmd STORE oc # rest" by blast
  have 4: "MEAS \<notin> set (opcodes [ICmd QALLOC [Reg RoleQ 0]])"
    "MEAS \<notin> set (opcodes [ICmd STORE [Reg RoleR 0, ArrayEntry 0 (Imm 0)], ICmd QFREE [Reg RoleQ 0]])"
    "opcodes [ICmd STORE [Reg RoleR 0, ArrayEntry 0 (Imm 0)]] \<noteq> [QFREE]"
    by simp_all
  from u [THEN conjunct2, THEN conjunct2, THEN conjunct2] 4
  have 5: "match_pattern
         \<lparr>commands = [ICmd QALLOC [Reg RoleQ 0]] @ ICmd MEAS [Reg RoleQ 0, Reg RoleR 0]
             # ICmd STORE [Reg RoleR 0, ArrayEntry 0 (Imm 0)] # [ICmd QFREE [Reg RoleQ 0]]\<rparr>
         test_futures_pattern \<noteq> Inr True" by simp
  from a 1 2 m 3 4 5 show ?thesis by (intro conjI)
qed

section \<open>Deactivation by a measurement\<close>

lemma not_in_remove1_count:
  "count_list xs x \<le> 1 \<Longrightarrow> x \<notin> set (remove1 x xs)"
  by (induction xs) (auto simp: count_list_0_iff)

text \<open>
  Claim C5. For a handle that is active and occurs once in the active-qubit list of its
  builder, \<open>measure\<close> returns; once the lowering has been emitted (it contains the \<open>MEAS\<close>)
  the handle is still active and still occurs once in the list; with \<open>inplace\<close> false the
  result is that state after the assignment \<open>active = False\<close>, which appends no instruction,
  and in it the flag is false and the handle is not in the list; with \<open>inplace\<close> true the
  result is the state after the lowering, handle active and in the list.
  The order is a property of \<open>measure\<close> for every lowering the builder may perform:
  the lowering runs on a state in which the handle is still active and in the list, a
  lowering that raises ends the call before any deactivation, and the deactivation is
  applied to the state that the lowering returns. A lowering that looks at the active-qubit
  list tells this order from the opposite one.
\<close>

theorem measure_deactivates_after_lowering:
  assumes "q_active (qubits s r)"
    and "count_list (active_qubits (builder_of s r)) r = 1"
  shows "(\<exists>f s2 s'. measure_lowering s r fut inplace store_array = (f, s2)
       \<and> Qubit_measure s r fut inplace store_array = Inr (f, s')
       \<and> MEAS \<in> set (opcodes (emitted s s2 r))
       \<and> q_active (qubits s2 r)
       \<and> count_list (active_qubits (builder_of s2 r)) r = 1
       \<and> pending (builder_of s' r) = pending (builder_of s2 r)
       \<and> (if inplace
           then s' = s2
           else s' = Qubit_set_active s2 r False \<and> \<not> q_active (qubits s' r)
                \<and> r \<notin> set (active_qubits (builder_of s' r))))
     \<and> Qubit_measure s r fut inplace store_array
         = Qubit_measure_with (builder_lowering add_measure_commands) s r fut inplace store_array
     \<and> (\<exists>f s1. choose_future s r fut store_array = (f, s1)
          \<and> q_active (qubits s1 r)
          \<and> count_list (active_qubits (builder_of s1 r)) r = 1
          \<and> Qubit_measure_with amc s r fut inplace store_array =
               (case amc s1 (q_conn (qubits s r)) (q_qubit_id (qubits s r)) f inplace of
                  Inl e \<Rightarrow> Inl e
                | Inr s2 \<Rightarrow> Inr (f, if inplace then s2 else Qubit_set_active s2 r False)))
     \<and> Qubit_measure_early checking_lowering fresh_qubit_state 0 None False True
         = Inl AssertionError
     \<and> (\<exists>f s'. Qubit_measure_with checking_lowering fresh_qubit_state 0 None False True
                  = Inr (f, s')
           \<and> \<not> q_active (qubits s' 0) \<and> 0 \<notin> set (active_qubits (builder_of s' 0)))"
proof -
  obtain f s2 where l: "measure_lowering s r fut inplace store_array = (f, s2)"
    by (cases "measure_lowering s r fut inplace store_array")
  let ?s' = "if \<not> inplace then Qubit_set_active s2 r False else s2"
  have m: "Qubit_measure s r fut inplace store_array = Inr (f, ?s')"
    using assms(1) l by (simp add: Qubit_measure_def assert_active_def)
  note fr = measure_lowering_frame [OF l]
  have e: "MEAS \<in> set (opcodes (emitted s s2 r))"
    using measure_lowering_emitted [OF l] by simp
  have a2: "q_active (qubits s2 r)" using fr(1) assms(1) by simp
  have c2: "count_list (active_qubits (builder_of s2 r)) r = 1"
    using assms(2) fr by (simp add: builder_of_def)
  have p: "pending (builder_of ?s' r) = pending (builder_of s2 r)"
    by (simp add: builder_of_def Qubit_set_active_simps)
  have d: "\<not> inplace \<Longrightarrow> \<not> q_active (qubits ?s' r) \<and> r \<notin> set (active_qubits (builder_of ?s' r))"
  proof -
    assume ni: "\<not> inplace"
    from c2 have "r \<notin> set (remove1 r (active_qubits (builder_of s2 r)))"
      by (simp add: not_in_remove1_count)
    with ni a2 show ?thesis
      by (simp add: builder_of_def Qubit_set_active_simps Qubit_set_active_list)
  qed
  have first: "\<exists>f s2 s'. measure_lowering s r fut inplace store_array = (f, s2)
       \<and> Qubit_measure s r fut inplace store_array = Inr (f, s')
       \<and> MEAS \<in> set (opcodes (emitted s s2 r))
       \<and> q_active (qubits s2 r)
       \<and> count_list (active_qubits (builder_of s2 r)) r = 1
       \<and> pending (builder_of s' r) = pending (builder_of s2 r)
       \<and> (if inplace
           then s' = s2
           else s' = Qubit_set_active s2 r False \<and> \<not> q_active (qubits s' r)
                \<and> r \<notin> set (active_qubits (builder_of s' r)))"
    using l m e a2 c2 p d by (cases inplace) auto
  obtain g s1 where ch: "choose_future s r fut store_array = (g, s1)"
    by (cases "choose_future s r fut store_array")
  note cf = choose_future_frame [OF ch]
  have a1: "q_active (qubits s1 r)" using cf(1) assms(1) by simp
  have c1: "count_list (active_qubits (builder_of s1 r)) r = 1"
    using assms(2) cf by (simp add: builder_of_def)
  have third: "\<exists>f s1. choose_future s r fut store_array = (f, s1)
          \<and> q_active (qubits s1 r)
          \<and> count_list (active_qubits (builder_of s1 r)) r = 1
          \<and> Qubit_measure_with amc s r fut inplace store_array =
               (case amc s1 (q_conn (qubits s r)) (q_qubit_id (qubits s r)) f inplace of
                  Inl e \<Rightarrow> Inl e
                | Inr s2 \<Rightarrow> Inr (f, if inplace then s2 else Qubit_set_active s2 r False))"
    using ch a1 c1 Qubit_measure_with_order [OF assms(1) ch] by blast
  from first third Qubit_measure_with_builder measure_orders_differ show ?thesis by blast
qed

theorem measure_deactivates_after_lowering_witness:
  "q_active (qubits fresh_qubit_state 0)
   \<and> count_list (active_qubits (builder_of fresh_qubit_state 0)) 0 = 1
   \<and> (\<exists>f s2 s'. measure_lowering fresh_qubit_state 0 None False True = (f, s2)
        \<and> Qubit_measure fresh_qubit_state 0 None False True = Inr (f, s')
        \<and> MEAS \<in> set (opcodes (emitted fresh_qubit_state s2 0))
        \<and> q_active (qubits s2 0)
        \<and> s' = Qubit_set_active s2 0 False \<and> \<not> q_active (qubits s' 0)
        \<and> 0 \<notin> set (active_qubits (builder_of s' 0)))
   \<and> (\<exists>f s2. measure_lowering fresh_qubit_state 0 None True True = (f, s2)
        \<and> Qubit_measure fresh_qubit_state 0 None True True = Inr (f, s2)
        \<and> q_active (qubits s2 0)
        \<and> count_list (active_qubits (builder_of s2 0)) 0 = 1)
   \<and> (\<exists>f s1. choose_future fresh_qubit_state 0 None True = (f, s1)
        \<and> q_active (qubits s1 0)
        \<and> Qubit_measure_with checking_lowering fresh_qubit_state 0 None False True =
             (case checking_lowering s1 0 0 f False of
                Inl e \<Rightarrow> Inl e
              | Inr s2 \<Rightarrow> Inr (f, Qubit_set_active s2 0 False)))
   \<and> Qubit_measure_early checking_lowering fresh_qubit_state 0 None False True
       = Inl AssertionError"
proof -
  have a: "q_active (qubits fresh_qubit_state 0)" by (simp add: fresh_qubit_state_simps)
  have b: "count_list (active_qubits (builder_of fresh_qubit_state 0)) 0 = 1"
    by (simp add: builder_of_def fresh_qubit_state_simps)
  note t1 = measure_deactivates_after_lowering [OF a b, of None False True checking_lowering]
  note t2 = measure_deactivates_after_lowering [OF a b, of None True True checking_lowering]
  from t1 [THEN conjunct1] have 1: "\<exists>f s2 s'. measure_lowering fresh_qubit_state 0 None False True = (f, s2)
        \<and> Qubit_measure fresh_qubit_state 0 None False True = Inr (f, s')
        \<and> MEAS \<in> set (opcodes (emitted fresh_qubit_state s2 0))
        \<and> q_active (qubits s2 0)
        \<and> s' = Qubit_set_active s2 0 False \<and> \<not> q_active (qubits s' 0)
        \<and> 0 \<notin> set (active_qubits (builder_of s' 0))"
    by (simp only: if_False) blast
  from t2 [THEN conjunct1] have 2: "\<exists>f s2. measure_lowering fresh_qubit_state 0 None True True = (f, s2)
        \<and> Qubit_measure fresh_qubit_state 0 None True True = Inr (f, s2)
        \<and> q_active (qubits s2 0)
        \<and> count_list (active_qubits (builder_of s2 0)) 0 = 1"
    by (simp only: if_True) blast
  from t1 [THEN conjunct2, THEN conjunct2, THEN conjunct1] have 3: "\<exists>f s1. choose_future fresh_qubit_state 0 None True = (f, s1)
        \<and> q_active (qubits s1 0)
        \<and> Qubit_measure_with checking_lowering fresh_qubit_state 0 None False True =
             (case checking_lowering s1 0 0 f False of
                Inl e \<Rightarrow> Inl e
              | Inr s2 \<Rightarrow> Inr (f, Qubit_set_active s2 0 False))"
    by (simp only: if_False fresh_qubit_state_simps) blast
  from t1 [THEN conjunct2, THEN conjunct2, THEN conjunct2, THEN conjunct1] have 4: "Qubit_measure_early checking_lowering fresh_qubit_state 0 None False True
       = Inl AssertionError" by blast
  from a b 1 2 3 4 show ?thesis by (intro conjI)
qed

section \<open>Methods that do not look at the flag\<close>

lemma builder_calls_emit:
  "add_qfree_commands qid = emit [ICmd QFREE [Reg RoleQ qid]]"
  "add_init_qubit_commands qid = emit [ICmd INIT [Reg RoleQ qid]]"
  "add_single_qubit_commands instr qid
     = emit [ICmd SET [Reg RoleQ qid, Imm qid], ICmd instr [Reg RoleQ qid]]"
  "add_two_qubit_commands instr qc qt
     = emit [ICmd SET [Reg RoleQ qc, Imm qc], ICmd SET [Reg RoleQ qt, Imm qt],
             ICmd instr [Reg RoleQ qc, Reg RoleQ qt]]"
  "add_single_qubit_rotation_commands instr qid n d None
     = emit [ICmd instr [Reg RoleQ qid, Imm n, Imm d]]"
  by (rule ext, simp add: add_qfree_commands_def add_init_qubit_commands_def
      add_single_qubit_commands_def add_two_qubit_commands_def
      add_single_qubit_rotation_commands_def)+

text \<open>
  Claim C4, on the code. \<open>free()\<close> appends a \<open>QFREE\<close> of the qubit to the pending
  pre-subroutine and changes nothing else: no \<open>Qubit\<close> object and no active-qubit list is
  touched. After \<open>q = Qubit(conn); q.free()\<close> the handle is still active and still in the
  list, where the claim says it is removed; \<open>measure\<close> assigns \<open>active = False\<close> after its
  builder call and \<open>free\<close> does not.
\<close>

theorem free_leaves_handle_active:
  "Qubit_free s r = Inr (on_builder s (q_conn (qubits s r))
                          (emit [ICmd QFREE [Reg RoleQ (q_qubit_id (qubits s r))]]))
   \<and> qubits (on_builder s (q_conn (qubits s r))
               (emit [ICmd QFREE [Reg RoleQ (q_qubit_id (qubits s r))]])) = qubits s
   \<and> active_qubits (builders (on_builder s (q_conn (qubits s r))
               (emit [ICmd QFREE [Reg RoleQ (q_qubit_id (qubits s r))]])) c)
       = active_qubits (builders s c)
   \<and> Qubit_free fresh_qubit_state 0
       = Inr (on_builder fresh_qubit_state 0 (emit [ICmd QFREE [Reg RoleQ 0]]))
   \<and> q_active (qubits (on_builder fresh_qubit_state 0 (emit [ICmd QFREE [Reg RoleQ 0]])) 0)
   \<and> active_qubits (builders (on_builder fresh_qubit_state 0 (emit [ICmd QFREE [Reg RoleQ 0]])) 0)
       = [0]
   \<and> opcodes (pending (builders (on_builder fresh_qubit_state 0 (emit [ICmd QFREE [Reg RoleQ 0]])) 0))
       = [QALLOC, INIT, SET, QFREE]"
  by (simp add: Qubit_free_def builder_calls_emit fresh_qubit_state_simps)
     (simp add: emit_def fresh_qubit_state_simps)

text \<open>
  Claim C2, on the code. After \<open>q = Qubit(conn); q.measure()\<close> the handle is inactive and
  out of the active-qubit list. A further \<open>measure\<close> raises \<open>QubitNotActiveError\<close>, but
  \<open>X\<close>, \<open>H\<close>, \<open>rot_X\<close>, \<open>cnot\<close> and \<open>free\<close> return normally and append their
  instructions: of all the methods only \<open>measure\<close> calls \<open>assert_active\<close>.
\<close>

theorem gates_on_inactive_qubit_do_not_raise:
  "\<not> q_active (qubits measured_state 0)
   \<and> 0 \<notin> set (active_qubits (builder_of measured_state 0))
   \<and> Qubit_measure measured_state 0 fut inplace store_array = Inl QubitNotActiveError
   \<and> Qubit_X measured_state 0
       = Inr (on_builder measured_state 0
                (emit [ICmd SET [Reg RoleQ 0, Imm 0], ICmd X [Reg RoleQ 0]]))
   \<and> Qubit_H measured_state 0
       = Inr (on_builder measured_state 0
                (emit [ICmd SET [Reg RoleQ 0, Imm 0], ICmd H [Reg RoleQ 0]]))
   \<and> Qubit_rot_X measured_state 0 n d None
       = Inr (on_builder measured_state 0 (emit [ICmd ROT_X [Reg RoleQ 0, Imm n, Imm d]]))
   \<and> Qubit_cnot measured_state 0 0
       = Inr (on_builder measured_state 0
                (emit [ICmd SET [Reg RoleQ 0, Imm 0], ICmd SET [Reg RoleQ 0, Imm 0],
                       ICmd CNOT [Reg RoleQ 0, Reg RoleQ 0]]))
   \<and> Qubit_free measured_state 0
       = Inr (on_builder measured_state 0 (emit [ICmd QFREE [Reg RoleQ 0]]))
   \<and> opcodes (pending (builders (on_builder measured_state 0
                (emit [ICmd SET [Reg RoleQ 0, Imm 0], ICmd X [Reg RoleQ 0]])) 0))
       = [QALLOC, INIT, SET, ARRAY, MEAS, QFREE, STORE, SET, X]"
  by (simp add: measured_state_simps builder_of_def Qubit_measure_def assert_active_def
      Qubit_X_def Qubit_H_def single_qubit_gate_def Qubit_rot_X_def rotation_def
      Qubit_cnot_def two_qubit_gate_def Qubit_free_def builder_calls_emit)
     (simp add: emit_def measured_state_simps)


section \<open>The active setter and the active-qubit list\<close>

text \<open>
  Claim C9. Assigning \<open>active = v\<close> to a handle whose flag is already \<open>v\<close> leaves the whole
  state unchanged; assigning \<open>active = True\<close> to an inactive handle sets the flag and makes
  the handle a member of the active-qubit list of its builder, appended at the end when it
  was not a member.
\<close>

theorem active_setter_idempotent_permissive:
  "(q_active (qubits s r) = v \<longrightarrow> Qubit_set_active s r v = s)
   \<and> (\<not> q_active (qubits s r) \<longrightarrow>
        q_active (qubits (Qubit_set_active s r True) r)
        \<and> r \<in> set (active_qubits (builder_of (Qubit_set_active s r True) r))
        \<and> (r \<notin> set (active_qubits (builder_of s r)) \<longrightarrow>
             active_qubits (builder_of (Qubit_set_active s r True) r)
               = active_qubits (builder_of s r) @ [r]))"
proof (intro conjI impI)
  assume "q_active (qubits s r) = v"
  then show "Qubit_set_active s r v = s" by (simp add: Qubit_set_active_def)
next
  assume "\<not> q_active (qubits s r)"
  then show "q_active (qubits (Qubit_set_active s r True) r)"
    by (simp add: Qubit_set_active_simps)
next
  assume "\<not> q_active (qubits s r)"
  then show "r \<in> set (active_qubits (builder_of (Qubit_set_active s r True) r))"
    by (simp add: Qubit_set_active_simps Qubit_set_active_list builder_of_def)
next
  assume "\<not> q_active (qubits s r)" "r \<notin> set (active_qubits (builder_of s r))"
  then show "active_qubits (builder_of (Qubit_set_active s r True) r)
               = active_qubits (builder_of s r) @ [r]"
    by (simp add: Qubit_set_active_simps Qubit_set_active_list builder_of_def)
qed

theorem active_setter_idempotent_permissive_witness:
  "q_active (qubits fresh_qubit_state 0) = True
   \<and> Qubit_set_active fresh_qubit_state 0 True = fresh_qubit_state
   \<and> \<not> q_active (qubits measured_state 0)
   \<and> 0 \<notin> set (active_qubits (builder_of measured_state 0))
   \<and> q_active (qubits (Qubit_set_active measured_state 0 True) 0)
   \<and> 0 \<in> set (active_qubits (builder_of (Qubit_set_active measured_state 0 True) 0))
   \<and> active_qubits (builder_of (Qubit_set_active measured_state 0 True) 0)
       = active_qubits (builder_of measured_state 0) @ [0]"
proof -
  have a: "q_active (qubits fresh_qubit_state 0) = True"
    by (simp add: fresh_qubit_state_simps)
  have b: "\<not> q_active (qubits measured_state 0)"
    by (simp add: measured_state_simps)
  have c: "0 \<notin> set (active_qubits (builder_of measured_state 0))"
    by (simp add: builder_of_def measured_state_simps)
  from active_setter_idempotent_permissive [of fresh_qubit_state 0 True]
    active_setter_idempotent_permissive [of measured_state 0 True] a b c
  show ?thesis by blast
qed

text \<open>A run with repeated activations, two qubits, a destructive measurement and a free.\<close>

definition demo_ops :: "qubit_op list" where
  "demo_ops =
     [Construct 0 True None None, Call 0 (M_set_active True), Call 0 M_H,
      Call 0 (M_set_active False), Call 0 (M_set_active True), Call 0 (M_set_active True),
      Construct 0 True None None, Call 1 (M_measure None False True), Call 1 M_X,
      Call 0 M_free]"

lemma demo_ops_run: "next_ref (run init_state demo_ops) = 2
   \<and> q_active (qubits (run init_state demo_ops) 0)
   \<and> \<not> q_active (qubits (run init_state demo_ops) 1)
   \<and> active_qubits (builder_of (run init_state demo_ops) 0) = [0]"
  by (simp add: demo_ops_def run_def Qubit_init_def init_state_def empty_builder_def
      new_qubit_id_def add_new_qubit_commands_def emit_def Let_def
      Qubit_set_active_simps Qubit_set_active_list builder_of_def
      Qubit_H_def Qubit_X_def single_qubit_gate_def Qubit_free_def
      Qubit_measure_def assert_active_def measure_lowering_def new_array_def
      get_future_index_def)

text \<open>
  Claim C6. In every state reached from the initial state by constructions and method calls
  (the active setter, \<open>measure\<close>, \<open>free\<close>, the gates and \<open>reset\<close>), every handle whose flag
  is true occurs exactly once in the active-qubit list of its builder; and a construction in
  such a state returns a handle that is active and occurs exactly once in that list.
\<close>

theorem active_qubit_in_active_set_once:
  "(\<forall>r<next_ref (run init_state ops).
      q_active (qubits (run init_state ops) r) \<longrightarrow>
      count_list (active_qubits (builder_of (run init_state ops) r)) r = 1)
   \<and> q_active (qubits (snd (Qubit_init (run init_state ops) c add_new_command ent va))
                (fst (Qubit_init (run init_state ops) c add_new_command ent va)))
   \<and> count_list
        (active_qubits
           (builder_of (snd (Qubit_init (run init_state ops) c add_new_command ent va))
              (fst (Qubit_init (run init_state ops) c add_new_command ent va))))
        (fst (Qubit_init (run init_state ops) c add_new_command ent va)) = 1"
proof -
  have i: "handles_inv (run init_state ops)"
    by (simp add: handles_inv_run handles_inv_init_state)
  obtain r s' where q: "Qubit_init (run init_state ops) c add_new_command ent va = (r, s')"
    by (cases "Qubit_init (run init_state ops) c add_new_command ent va")
  note fr = Qubit_init_frame [OF q]
  have i': "handles_inv s'" using handles_inv_init [OF i q] .
  have a': "q_active (qubits s' r)" using fr(3) [of r] by simp
  have r': "r < next_ref s'" using fr(1,2) by simp
  from i show ?thesis using handles_inv_count [OF i' r' a'] a' q
    by (auto simp: handles_inv_count)
qed

theorem active_qubit_in_active_set_once_witness:
  "0 < next_ref (run init_state demo_ops)
   \<and> q_active (qubits (run init_state demo_ops) 0)
   \<and> count_list (active_qubits (builder_of (run init_state demo_ops) 0)) 0 = 1"
  using active_qubit_in_active_set_once [of demo_ops] demo_ops_run
  by auto

end
